theory Spec2Isabelle
  imports Main
begin

section \<open>Printers and printer diffs (package lib)\<close>

text \<open>
  The Go struct \<^verbatim>\<open>Printer\<close>. Strings are byte strings. The two capability
  sections are pointers to structs declared in another package, \<^verbatim>\<open>cdd\<close>: their
  types are parameters \<open>'st\<close> and \<open>'desc\<close>, a nil
  pointer is \<open>None\<close>, and \<^verbatim>\<open>reflect.DeepEqual\<close> on two such pointers is equality
  of the options (nil equals nil only, otherwise the pointees are compared by value).
  The job semaphore is a pointer as well; \<open>'sem\<close> is the type of its referent's identity.
  A Go map from strings to strings is a partial function; looking a key up in a nil
  map finds nothing, as in the empty map.
\<close>

record ('st, 'desc, 'sem) Printer =
  GCPID :: string
  Name :: string
  DefaultDisplayName :: string
  UUID :: string
  Manufacturer :: string
  Model :: string
  GCPVersion :: string
  SetupURL :: string
  SupportURL :: string
  UpdateURL :: string
  ConnectorVersion :: string
  State :: "'st option"
  Description :: "'desc option"
  CapsHash :: string
  Tags :: "string \<rightharpoonup> string"
  CUPSJobSemaphore :: "'sem option"

datatype PrinterDiffOperation =
  RegisterPrinter | UpdatePrinter | DeletePrinter | NoChangeToPrinter

record ('st, 'desc, 'sem) PrinterDiff =
  Operation :: PrinterDiffOperation
  Printer :: "('st, 'desc, 'sem) Printer"
  DefaultDisplayNameChanged :: bool
  ManufacturerChanged :: bool
  ModelChanged :: bool
  GCPVersionChanged :: bool
  SetupURLChanged :: bool
  SupportURLChanged :: bool
  UpdateURLChanged :: bool
  ConnectorVersionChanged :: bool
  StateChanged :: bool
  DescriptionChanged :: bool
  CapsHashChanged :: bool
  TagsChanged :: bool

text \<open>
  A Go panic is an error value carrying the panic's message; a returned Go
  \<^verbatim>\<open>error\<close> is an error value carrying its text.
\<close>

datatype error = Panic string | Error string

text \<open>
  The composite literal \<^verbatim>\<open>PrinterDiff{Operation: op, Printer: p}\<close>: every flag has
  its zero value.
\<close>

definition newPrinterDiff ::
  "PrinterDiffOperation \<Rightarrow> ('st, 'desc, 'sem) Printer \<Rightarrow> ('st, 'desc, 'sem) PrinterDiff" where
  "newPrinterDiff op p =
     \<lparr>Operation = op, Printer = p,
      DefaultDisplayNameChanged = False, ManufacturerChanged = False,
      ModelChanged = False, GCPVersionChanged = False, SetupURLChanged = False,
      SupportURLChanged = False, UpdateURLChanged = False,
      ConnectorVersionChanged = False, StateChanged = False,
      DescriptionChanged = False, CapsHashChanged = False, TagsChanged = False\<rparr>"

text \<open>
  Go orders strings byte by byte, a proper prefix before its extensions;
  \<open>stringLess a b\<close> is Go's \<^verbatim>\<open>a < b\<close>.
\<close>

fun stringLess :: "string \<Rightarrow> string \<Rightarrow> bool" where
  "stringLess [] [] = False"
| "stringLess [] (b # bs) = True"
| "stringLess (a # as) [] = False"
| "stringLess (a # as) (b # bs) =
     ((of_char a :: nat) < of_char b \<or> (a = b \<and> stringLess as bs))"

text \<open>
  \<^verbatim>\<open>diffPrinter(pc, pg)\<close>: \<open>pc\<close> is the CUPS (local) printer, \<open>pg\<close> the GCP
  (remote) one. The flags are set one after the other on the Update diff \<open>d\<close>; the
  panic on a remote version greater than the local one leaves the function at the
  version comparison.
\<close>

definition diffPrinter ::
  "('st, 'desc, 'sem) Printer \<Rightarrow> ('st, 'desc, 'sem) Printer
     \<Rightarrow> error + ('st, 'desc, 'sem) PrinterDiff" where
  "diffPrinter pc pg =
    (let d = newPrinterDiff UpdatePrinter pc;
         d = (if DefaultDisplayName pg \<noteq> DefaultDisplayName pc
              then d\<lparr>DefaultDisplayNameChanged := True\<rparr> else d);
         d = (if Manufacturer pg \<noteq> Manufacturer pc
              then d\<lparr>ManufacturerChanged := True\<rparr> else d);
         d = (if Model pg \<noteq> Model pc then d\<lparr>ModelChanged := True\<rparr> else d)
     in
     if GCPVersion pg \<noteq> GCPVersion pc \<and> stringLess (GCPVersion pc) (GCPVersion pg)
     then Inl (Panic ''GCP version cannot be downgraded; delete GCP printers'')
     else
      (let d = (if GCPVersion pg \<noteq> GCPVersion pc
                then d\<lparr>GCPVersionChanged := True\<rparr> else d);
           d = (if SetupURL pg \<noteq> SetupURL pc then d\<lparr>SetupURLChanged := True\<rparr> else d);
           d = (if SupportURL pg \<noteq> SupportURL pc
                then d\<lparr>SupportURLChanged := True\<rparr> else d);
           d = (if UpdateURL pg \<noteq> UpdateURL pc then d\<lparr>UpdateURLChanged := True\<rparr> else d);
           d = (if ConnectorVersion pg \<noteq> ConnectorVersion pc
                then d\<lparr>ConnectorVersionChanged := True\<rparr> else d);
           d = (if State pg \<noteq> State pc then d\<lparr>StateChanged := True\<rparr> else d);
           d = (if Description pg \<noteq> Description pc
                then d\<lparr>DescriptionChanged := True\<rparr> else d);
           d = (if CapsHash pg \<noteq> CapsHash pc then d\<lparr>CapsHashChanged := True\<rparr> else d);
           gcpTagshash = Tags pg ''tagshash'';
           cupsTagshash = Tags pc ''tagshash'';
           d = (if gcpTagshash = None \<or> cupsTagshash = None \<or> gcpTagshash \<noteq> cupsTagshash
                then d\<lparr>TagsChanged := True\<rparr> else d)
       in
       if DefaultDisplayNameChanged d \<or> ManufacturerChanged d \<or> ModelChanged d \<or>
          GCPVersionChanged d \<or> SetupURLChanged d \<or> SupportURLChanged d \<or>
          UpdateURLChanged d \<or> ConnectorVersionChanged d \<or> StateChanged d \<or>
          DescriptionChanged d \<or> CapsHashChanged d \<or> TagsChanged d
       then Inr d
       else Inr (newPrinterDiff NoChangeToPrinter pg)))"

text \<open>
  \<^verbatim>\<open>printerSliceToMapByName\<close>: the slice is walked from the front, so of several
  printers with one name the last is the one the map keeps.
\<close>

definition printerSliceToMapByName ::
  "('st, 'desc, 'sem) Printer list \<Rightarrow> (string \<rightharpoonup> ('st, 'desc, 'sem) Printer)" where
  "printerSliceToMapByName s = foldl (\<lambda>m p. m(Name p \<mapsto> p)) Map.empty s"

text \<open>
  The state of \<^verbatim>\<open>DiffPrinters\<close>' two loops: the diffs appended so far, the set
  \<^verbatim>\<open>printersConsidered\<close> of names, and the flag \<^verbatim>\<open>dirty\<close>.
\<close>

type_synonym ('st, 'desc, 'sem) diffState =
  "('st, 'desc, 'sem) PrinterDiff list \<times> string set \<times> bool"

text \<open>The loop over \<^verbatim>\<open>gcpPrinters\<close>; a panic of \<open>diffPrinter\<close> ends it.\<close>

fun gcpLoop ::
  "(string \<rightharpoonup> ('st, 'desc, 'sem) Printer) \<Rightarrow> ('st, 'desc, 'sem) Printer list
     \<Rightarrow> ('st, 'desc, 'sem) diffState \<Rightarrow> error + ('st, 'desc, 'sem) diffState" where
  "gcpLoop cupsPrintersByName [] st = Inr st"
| "gcpLoop cupsPrintersByName (pg # rest) (diffs, printersConsidered, dirty) =
    (if Name pg \<in> printersConsidered
     then gcpLoop cupsPrintersByName rest
            (diffs @ [newPrinterDiff DeletePrinter pg], printersConsidered, True)
     else
      (case cupsPrintersByName (Name pg) of
         Some cupsPrinter \<Rightarrow>
           (case diffPrinter
                   (cupsPrinter\<lparr>GCPID := GCPID pg,
                                CUPSJobSemaphore := CUPSJobSemaphore pg\<rparr>) pg of
              Inl e \<Rightarrow> Inl e
            | Inr diff \<Rightarrow>
                gcpLoop cupsPrintersByName rest
                  (diffs @ [diff], insert (Name pg) printersConsidered,
                   dirty \<or> Operation diff \<noteq> NoChangeToPrinter))
       | None \<Rightarrow>
           gcpLoop cupsPrintersByName rest
             (diffs @ [newPrinterDiff DeletePrinter pg],
              insert (Name pg) printersConsidered, True)))"

text \<open>The loop over \<^verbatim>\<open>cupsPrinters\<close>; it reads \<^verbatim>\<open>printersConsidered\<close> only.\<close>

fun cupsLoop ::
  "('st, 'desc, 'sem) Printer list \<Rightarrow> ('st, 'desc, 'sem) diffState
     \<Rightarrow> ('st, 'desc, 'sem) diffState" where
  "cupsLoop [] st = st"
| "cupsLoop (p # rest) (diffs, printersConsidered, dirty) =
    (if Name p \<notin> printersConsidered
     then cupsLoop rest (diffs @ [newPrinterDiff RegisterPrinter p], printersConsidered, True)
     else cupsLoop rest (diffs, printersConsidered, dirty))"

text \<open>
  The body of \<^verbatim>\<open>DiffPrinters\<close> up to its last statement: both loops, run from the
  empty state.
\<close>

definition accumulateDiffs ::
  "('st, 'desc, 'sem) Printer list \<Rightarrow> ('st, 'desc, 'sem) Printer list
     \<Rightarrow> error + ('st, 'desc, 'sem) diffState" where
  "accumulateDiffs cupsPrinters gcpPrinters =
    (case gcpLoop (printerSliceToMapByName cupsPrinters) gcpPrinters ([], {}, False) of
       Inl e \<Rightarrow> Inl e
     | Inr st \<Rightarrow> Inr (cupsLoop cupsPrinters st))"

text \<open>
  \<^verbatim>\<open>DiffPrinters(cupsPrinters, gcpPrinters)\<close>. The nil slice is \<open>None\<close>.
\<close>

definition DiffPrinters ::
  "('st, 'desc, 'sem) Printer list \<Rightarrow> ('st, 'desc, 'sem) Printer list
     \<Rightarrow> error + ('st, 'desc, 'sem) PrinterDiff list option" where
  "DiffPrinters cupsPrinters gcpPrinters =
    (case accumulateDiffs cupsPrinters gcpPrinters of
       Inl e \<Rightarrow> Inl e
     | Inr (diffs, printersConsidered, dirty) \<Rightarrow>
         if dirty then Inr (Some diffs) else Inr None)"


subsection \<open>Notions the statements about the diff use\<close>

text \<open>
  The diff the loop over \<^verbatim>\<open>gcpPrinters\<close> appends for one remote printer \<open>pg\<close>,
  when \<open>seen\<close> is \<^verbatim>\<open>printersConsidered\<close> at that iteration.
\<close>

definition remoteDiff ::
  "(string \<rightharpoonup> ('st, 'desc, 'sem) Printer) \<Rightarrow> string set \<Rightarrow> ('st, 'desc, 'sem) Printer
     \<Rightarrow> error + ('st, 'desc, 'sem) PrinterDiff" where
  "remoteDiff cupsPrintersByName seen pg =
    (if Name pg \<in> seen then Inr (newPrinterDiff DeletePrinter pg)
     else (case cupsPrintersByName (Name pg) of
             Some cupsPrinter \<Rightarrow>
               diffPrinter
                 (cupsPrinter\<lparr>GCPID := GCPID pg, CUPSJobSemaphore := CUPSJobSemaphore pg\<rparr>) pg
           | None \<Rightarrow> Inr (newPrinterDiff DeletePrinter pg)))"

text \<open>The diffs a returned slice holds: none for nil.\<close>

definition diffsOf :: "'a list option \<Rightarrow> 'a list" where
  "diffsOf r = (case r of None \<Rightarrow> [] | Some ds \<Rightarrow> ds)"

text \<open>
  The twelve field groups a diff has a change flag for, in the order of the flags
  in \<^verbatim>\<open>PrinterDiff\<close>.
\<close>

datatype fieldGroup =
  FDefaultDisplayName | FManufacturer | FModel | FGCPVersion | FSetupURL | FSupportURL
| FUpdateURL | FConnectorVersion | FState | FDescription | FCapsHash | FTags

definition fieldGroups :: "fieldGroup list" where
  "fieldGroups =
     [FDefaultDisplayName, FManufacturer, FModel, FGCPVersion, FSetupURL, FSupportURL,
      FUpdateURL, FConnectorVersion, FState, FDescription, FCapsHash, FTags]"

text \<open>
  When a field group differs between the local printer \<open>pc\<close> and the remote printer
  \<open>pg\<close>, as the specification words it: the tags differ unless both printers carry
  the tag \<^verbatim>\<open>tagshash\<close> and with the same value.
\<close>

fun fieldDiffers ::
  "fieldGroup \<Rightarrow> ('st, 'desc, 'sem) Printer \<Rightarrow> ('st, 'desc, 'sem) Printer \<Rightarrow> bool" where
  "fieldDiffers FDefaultDisplayName pc pg = (DefaultDisplayName pc \<noteq> DefaultDisplayName pg)"
| "fieldDiffers FManufacturer pc pg = (Manufacturer pc \<noteq> Manufacturer pg)"
| "fieldDiffers FModel pc pg = (Model pc \<noteq> Model pg)"
| "fieldDiffers FGCPVersion pc pg = (GCPVersion pc \<noteq> GCPVersion pg)"
| "fieldDiffers FSetupURL pc pg = (SetupURL pc \<noteq> SetupURL pg)"
| "fieldDiffers FSupportURL pc pg = (SupportURL pc \<noteq> SupportURL pg)"
| "fieldDiffers FUpdateURL pc pg = (UpdateURL pc \<noteq> UpdateURL pg)"
| "fieldDiffers FConnectorVersion pc pg = (ConnectorVersion pc \<noteq> ConnectorVersion pg)"
| "fieldDiffers FState pc pg = (State pc \<noteq> State pg)"
| "fieldDiffers FDescription pc pg = (Description pc \<noteq> Description pg)"
| "fieldDiffers FCapsHash pc pg = (CapsHash pc \<noteq> CapsHash pg)"
| "fieldDiffers FTags pc pg =
     (case Tags pc ''tagshash'' of
        None \<Rightarrow> True
      | Some c \<Rightarrow> (case Tags pg ''tagshash'' of None \<Rightarrow> True | Some g \<Rightarrow> c \<noteq> g))"

definition differingFields ::
  "('st, 'desc, 'sem) Printer \<Rightarrow> ('st, 'desc, 'sem) Printer \<Rightarrow> fieldGroup list" where
  "differingFields pc pg = filter (\<lambda>f. fieldDiffers f pc pg) fieldGroups"

text \<open>The change flag of a field group, and the groups whose flag a diff has set.\<close>

fun changeFlag :: "fieldGroup \<Rightarrow> ('st, 'desc, 'sem) PrinterDiff \<Rightarrow> bool" where
  "changeFlag FDefaultDisplayName d = DefaultDisplayNameChanged d"
| "changeFlag FManufacturer d = ManufacturerChanged d"
| "changeFlag FModel d = ModelChanged d"
| "changeFlag FGCPVersion d = GCPVersionChanged d"
| "changeFlag FSetupURL d = SetupURLChanged d"
| "changeFlag FSupportURL d = SupportURLChanged d"
| "changeFlag FUpdateURL d = UpdateURLChanged d"
| "changeFlag FConnectorVersion d = ConnectorVersionChanged d"
| "changeFlag FState d = StateChanged d"
| "changeFlag FDescription d = DescriptionChanged d"
| "changeFlag FCapsHash d = CapsHashChanged d"
| "changeFlag FTags d = TagsChanged d"

definition changedFlags :: "('st, 'desc, 'sem) PrinterDiff \<Rightarrow> fieldGroup list" where
  "changedFlags d = filter (\<lambda>f. changeFlag f d) fieldGroups"

text \<open>
  The Update diff whose every flag is the comparison of its field group: what
  \<open>diffPrinter\<close> builds in \<open>d\<close> when it does not panic.
\<close>

definition updateDiff ::
  "('st, 'desc, 'sem) Printer \<Rightarrow> ('st, 'desc, 'sem) Printer
     \<Rightarrow> ('st, 'desc, 'sem) PrinterDiff" where
  "updateDiff pc pg =
     \<lparr>Operation = UpdatePrinter, Printer = pc,
      DefaultDisplayNameChanged = fieldDiffers FDefaultDisplayName pc pg,
      ManufacturerChanged = fieldDiffers FManufacturer pc pg,
      ModelChanged = fieldDiffers FModel pc pg,
      GCPVersionChanged = fieldDiffers FGCPVersion pc pg,
      SetupURLChanged = fieldDiffers FSetupURL pc pg,
      SupportURLChanged = fieldDiffers FSupportURL pc pg,
      UpdateURLChanged = fieldDiffers FUpdateURL pc pg,
      ConnectorVersionChanged = fieldDiffers FConnectorVersion pc pg,
      StateChanged = fieldDiffers FState pc pg,
      DescriptionChanged = fieldDiffers FDescription pc pg,
      CapsHashChanged = fieldDiffers FCapsHash pc pg,
      TagsChanged = fieldDiffers FTags pc pg\<rparr>"

text \<open>
  A printer to run the functions on: registered under the version 2.0, with a
  tags hash. The examples below vary it field by field.
\<close>

definition samplePrinter :: "string \<Rightarrow> (nat, nat, nat) Printer" where
  "samplePrinter n =
     \<lparr>GCPID = [], Name = n, DefaultDisplayName = ''Office'', UUID = ''u-1'',
      Manufacturer = ''Acme'', Model = ''LaserOne'', GCPVersion = ''2.0'',
      SetupURL = ''http://s'', SupportURL = ''http://h'', UpdateURL = ''http://u'',
      ConnectorVersion = ''1.2'', State = Some 0, Description = Some 0,
      CapsHash = ''c0'', Tags = [''tagshash'' \<mapsto> ''t0''], CUPSJobSemaphore = None\<rparr>"

text \<open>The same printer without any tag, and with a device locator as its only tag.\<close>

definition untaggedPrinter :: "string \<Rightarrow> (nat, nat, nat) Printer" where
  "untaggedPrinter n = (samplePrinter n)\<lparr>Tags := Map.empty\<rparr>"

definition locatorPrinter :: "string \<Rightarrow> (nat, nat, nat) Printer" where
  "locatorPrinter uri = (samplePrinter ''A'')\<lparr>Tags := [''device-uri'' \<mapsto> uri]\<rparr>"

section \<open>The hostname of a printer (\<^verbatim>\<open>GetHostname\<close>)\<close>

text \<open>
  The regular expression \<^verbatim>\<open>rDeviceURIHostname\<close> is
  \<^verbatim>\<open>(?i)^(?:socket|http|https|ipp|ipps|lpd)://([a-z][a-z0-9.-]*)\<close>.
  Go matches it rune by rune on the UTF-8 decoding of the byte string, and under
  \<^verbatim>\<open>(?i)\<close> a rune matches a letter of the pattern when the two are equal under
  Unicode simple case folding: besides the upper-case ASCII letter, the long s (U+017F,
  bytes C5 BF) matches \<^verbatim>\<open>s\<close> and the Kelvin sign (U+212A, bytes E2 84 AA) matches
  \<^verbatim>\<open>k\<close>. No other rune outside ASCII matches anything in this pattern.
\<close>

definition lowerLetters :: string where "lowerLetters = ''abcdefghijklmnopqrstuvwxyz''"

definition upperLetters :: string where "upperLetters = ''ABCDEFGHIJKLMNOPQRSTUVWXYZ''"

text \<open>The class \<^verbatim>\<open>[a-z0-9.-]\<close>, and \<open>lowerLetters\<close> for the class \<^verbatim>\<open>[a-z]\<close>.\<close>

definition hostChars :: string where "hostChars = lowerLetters @ ''0123456789.-''"

definition kelvinSign :: string where "kelvinSign = [CHR 0xE2, CHR 0x84, CHR 0xAA]"

definition longS :: string where "longS = [CHR 0xC5, CHR 0xBF]"

definition toLower :: "char \<Rightarrow> char" where
  "toLower x = (case map_of (zip upperLetters lowerLetters) x of Some l \<Rightarrow> l | None \<Rightarrow> x)"

text \<open>
  The first rune of the input as far as the pattern can tell runes apart: its case
  folding and its length in bytes. A byte that starts neither of the two special
  runes stands for itself; if it is not ASCII it matches nothing below.
\<close>

definition firstRune :: "string \<Rightarrow> (char \<times> nat) option" where
  "firstRune s =
     (if s = [] then None
      else if take 3 s = kelvinSign then Some (CHR ''k'', 3)
      else if take 2 s = longS then Some (CHR ''s'', 2)
      else Some (toLower (hd s), 1))"

text \<open>A literal of the pattern (in lower case) at the start of \<open>s\<close>: what follows it.\<close>

fun matchLiteral :: "string \<Rightarrow> string \<Rightarrow> string option" where
  "matchLiteral [] s = Some s"
| "matchLiteral (c # cs) s =
     (case firstRune s of
        None \<Rightarrow> None
      | Some (f, n) \<Rightarrow> if f = c then matchLiteral cs (drop n s) else None)"

text \<open>The greedy star of a class at the start of \<open>s\<close>: the text it matches.\<close>

function matchStar :: "string \<Rightarrow> string \<Rightarrow> string" where
  "matchStar cls s =
     (case firstRune s of
        None \<Rightarrow> []
      | Some (f, n) \<Rightarrow> if f \<in> set cls then take n s @ matchStar cls (drop n s) else [])"
  by pat_completeness auto
termination
  by (relation "measure (\<lambda>(cls, s). length s)") (auto simp: firstRune_def split: if_splits)

declare matchStar.simps [simp del]

definition schemes :: "string list" where
  "schemes = [''socket'', ''http'', ''https'', ''ipp'', ''ipps'', ''lpd'']"

text \<open>The capture group \<^verbatim>\<open>([a-z][a-z0-9.-]*)\<close> at the start of \<open>s\<close>.\<close>

definition hostGroup :: "string \<Rightarrow> string option" where
  "hostGroup s =
     (case firstRune s of
        None \<Rightarrow> None
      | Some (f, n) \<Rightarrow>
          if f \<in> set lowerLetters
          then Some (take n s @ matchStar hostChars (drop n s))
          else None)"

text \<open>
  The alternation, followed by \<^verbatim>\<open>://\<close> and the group: the first alternative with
  which the rest of the pattern matches wins. The result is the whole match and the
  group.
\<close>

fun firstAlternative :: "string list \<Rightarrow> string \<Rightarrow> (string \<times> string) option" where
  "firstAlternative [] s = None"
| "firstAlternative (sch # rest) s =
     (case matchLiteral (sch @ ''://'') s of
        None \<Rightarrow> firstAlternative rest s
      | Some t \<Rightarrow>
          (case hostGroup t of
             None \<Rightarrow> firstAlternative rest s
           | Some h \<Rightarrow> Some (take (length s - length t) s @ h, h)))"

text \<open>
  \<^verbatim>\<open>rDeviceURIHostname.FindStringSubmatch(s)\<close>: the match and its group, or nil
  (the empty list) when there is no match.
\<close>

definition FindStringSubmatch :: "string \<Rightarrow> string list" where
  "FindStringSubmatch s =
     (case firstAlternative schemes s of None \<Rightarrow> [] | Some (m, h) \<Rightarrow> [m, h])"

definition GetHostname :: "('st, 'desc, 'sem) Printer \<Rightarrow> string \<times> bool" where
  "GetHostname p =
     (case Tags p ''device-uri'' of
        None \<Rightarrow> ([], False)
      | Some deviceURI \<Rightarrow>
          (let parts = FindStringSubmatch deviceURI
           in if length parts = 2 then (parts ! 1, True) else ([], False)))"

subsection \<open>What the statement about the hostname uses\<close>

text \<open>The case folding of a whole string, rune by rune.\<close>

function foldCase :: "string \<Rightarrow> string" where
  "foldCase s =
     (case firstRune s of None \<Rightarrow> [] | Some (f, n) \<Rightarrow> f # foldCase (drop n s))"
  by pat_completeness auto
termination
  by (relation "measure length") (auto simp: firstRune_def split: if_splits)

declare foldCase.simps [simp del]

text \<open>The two bytes that start a special rune; no letter of the pattern is one.\<close>

definition asciiFold :: "char \<Rightarrow> bool" where
  "asciiFold c = (c \<noteq> CHR 0xE2 \<and> c \<noteq> CHR 0xC5)"

text \<open>
  A name as the group accepts it: a letter, then letters, digits, dots and hyphens,
  letter case ignored. And a text that does not go on with such a character.
\<close>

definition isHostname :: "string \<Rightarrow> bool" where
  "isHostname h =
     (\<exists>c cs. foldCase h = c # cs \<and> c \<in> set lowerLetters \<and> set cs \<subseteq> set hostChars)"

definition noHostRune :: "string \<Rightarrow> bool" where
  "noHostRune rest = (\<forall>f n. firstRune rest = Some (f, n) \<longrightarrow> f \<notin> set hostChars)"

text \<open>
  The locator \<open>uri\<close> begins, letter case ignored, with one of the schemes and
  \<^verbatim>\<open>://\<close>, and \<open>h\<close> is the longest name that follows.
\<close>

definition hostnameIn :: "string \<Rightarrow> string \<Rightarrow> bool" where
  "hostnameIn uri h =
     (\<exists>pre rest. uri = pre @ h @ rest \<and>
        (\<exists>sch\<in>set schemes. foldCase pre = sch @ ''://'') \<and> isHostname h \<and> noHostRune rest)"


section \<open>The PPD cache (package cups)\<close>

text \<open>
  A cache entry, the Go struct \<^verbatim>\<open>ppdCacheEntry\<close>. \<open>printername\<close> is a pointer to a
  C string: an address in the C heap below. The description is a struct of package
  \<^verbatim>\<open>cdd\<close> held by value: a value of the type parameter \<open>'desc\<close>, whose \<open>0\<close> is
  the struct's zero value. The mutexes guard against other goroutines and have no
  part in a run of one lookup.
\<close>

record 'desc ppdCacheEntry =
  printername :: nat
  modtime :: int
  filename :: string
  description :: 'desc
  manufacturer :: string
  model :: string

text \<open>
  What the entries hold outside the Go heap: the temporary files on disk (name and
  content) and the C strings allocated with \<^verbatim>\<open>C.CString\<close>; \<open>nextCString\<close> is the
  address the next allocation returns.
\<close>

record resources =
  tempFiles :: "string \<rightharpoonup> string"
  cStrings :: "nat \<rightharpoonup> string"
  nextCString :: nat

text \<open>
  The struct \<^verbatim>\<open>ppdCache\<close>: the map from printer names to entries (the entries are
  pointers; an entry changed by \<^verbatim>\<open>refresh\<close> is written back under its name), with
  the resources the process holds.
\<close>

record 'desc ppdCache =
  cache :: "string \<rightharpoonup> 'desc ppdCacheEntry"
  held :: resources

text \<open>
  What another part of the connector or the operating system answers is a parameter
  of a lookup:
  \<^item> \<open>TempFile\<close>: the result of \<^verbatim>\<open>ioutil.TempFile\<close>, an error text or the name of
    the file it has created;
  \<^item> \<open>getPPD\<close>: the method \<^verbatim>\<open>cupsCore.getPPD(printername, &modtime)\<close>, given what
    the name pointer points to and the stamp: an error text, or nil (the PPD is
    unchanged), or the name of a temporary file holding the new PPD, together with
    the value the callee has left in \<open>modtime\<close> through the pointer;
  \<^item> \<open>Open\<close>, \<open>OpenFile\<close>: the error, if any, of opening the CUPS temporary file for
    reading and the entry's file for writing;
  \<^item> \<open>Copy\<close>: the bytes \<^verbatim>\<open>io.Copy\<close> has moved from the CUPS temporary file, and
    its error, if any;
  \<^item> \<open>translatePPD\<close>: the translator of package cups; the description it returns
    is a pointer, nil being \<open>None\<close>.
\<close>

record 'desc environment =
  TempFile :: "string + string"
  getPPD :: "string option \<Rightarrow> int \<Rightarrow> (string + string option) \<times> int"
  Open :: "string \<Rightarrow> string option"
  OpenFile :: "string \<Rightarrow> string option"
  Copy :: "string \<Rightarrow> string \<times> string option"
  translatePPD :: "string \<Rightarrow> 'desc option \<times> string \<times> string"

definition createPPDCacheEntry ::
  "('desc :: zero) environment \<Rightarrow> string \<Rightarrow> resources
     \<Rightarrow> (error + 'desc ppdCacheEntry) \<times> resources" where
  "createPPDCacheEntry env name r =
     (case TempFile env of
        Inl err \<Rightarrow> (Inl (Error (''Failed to create PPD cache entry file: '' @ err)), r)
      | Inr file \<Rightarrow>
          (let r = r\<lparr>tempFiles := (tempFiles r)(file \<mapsto> [])\<rparr>;
               p = nextCString r;
               r = r\<lparr>cStrings := (cStrings r)(p \<mapsto> name), nextCString := p + 1\<rparr>
           in (Inr \<lparr>printername = p, modtime = 0, filename = file,
                    description = 0, manufacturer = [], model = []\<rparr>, r)))"

definition getFields :: "'desc ppdCacheEntry \<Rightarrow> 'desc \<times> string \<times> string" where
  "getFields pce = (description pce, manufacturer pce, model pce)"

text \<open>\<^verbatim>\<open>free\<close>: the C string is freed and the file removed.\<close>

definition free :: "'desc ppdCacheEntry \<Rightarrow> resources \<Rightarrow> resources" where
  "free pce r =
     r\<lparr>cStrings := (cStrings r)(printername pce := None),
       tempFiles := (tempFiles r)(filename pce := None)\<rparr>"

text \<open>
  \<^verbatim>\<open>refresh\<close>: the error (if any), the entry and the resources afterwards. The stamp
  is whatever \<open>getPPD\<close> has left in it. The entry's file is opened without
  \<^verbatim>\<open>O_CREATE\<close> and with \<^verbatim>\<open>O_TRUNC\<close>, and then holds what has been copied.
  A translation with a nil description, or an empty manufacturer or model, is an
  error; otherwise the struct the description points to is stored.
\<close>

definition refresh ::
  "'desc environment \<Rightarrow> 'desc ppdCacheEntry \<Rightarrow> resources
     \<Rightarrow> error option \<times> 'desc ppdCacheEntry \<times> resources" where
  "refresh env pce r =
     (case getPPD env (cStrings r (printername pce)) (modtime pce) of
        (res, stamp) \<Rightarrow>
          (let pce = pce\<lparr>modtime := stamp\<rparr> in
           case res of
             Inl err \<Rightarrow> (Some (Error err), pce, r)
           | Inr None \<Rightarrow> (None, pce, r)
           | Inr (Some ppdFilename) \<Rightarrow>
               (case Open env ppdFilename of
                  Some err \<Rightarrow> (Some (Error err), pce, r)
                | None \<Rightarrow>
                    if tempFiles r (filename pce) = None
                    then (Some (Error (''Failed to open already-created PPD cache file: ''
                                         @ ''open '' @ filename pce
                                         @ '': no such file or directory'')), pce, r)
                    else
                     (case OpenFile env (filename pce) of
                        Some err \<Rightarrow>
                          (Some (Error (''Failed to open already-created PPD cache file: ''
                                          @ err)), pce, r)
                      | None \<Rightarrow>
                          (case Copy env ppdFilename of
                             (content, copyErr) \<Rightarrow>
                               (let r = r\<lparr>tempFiles := (tempFiles r)(filename pce \<mapsto> content)\<rparr>
                                in case copyErr of
                                     Some err \<Rightarrow> (Some (Error err), pce, r)
                                   | None \<Rightarrow>
                                       (case translatePPD env content of
                                          (d, mf, md) \<Rightarrow>
                                            (case d of
                                               None \<Rightarrow>
                                                 (Some (Error ''Failed to parse PPD''), pce, r)
                                             | Some dv \<Rightarrow>
                                                 if mf = [] \<or> md = []
                                                 then (Some (Error ''Failed to parse PPD''),
                                                       pce, r)
                                                 else
                                                  (None,
                                                   pce\<lparr>description := dv,
                                                        manufacturer := mf,
                                                        model := md\<rparr>, r)))))))))"

text \<open>
  \<^verbatim>\<open>getPPDCacheEntry\<close>, run by one goroutine: the cache read under the write lock is
  the cache read under the read lock, so the branch for an entry installed in between
  is there but is not taken. A successful lookup returns a pointer to a copy of the
  entry's description, which is never nil: the result holds the struct itself.
\<close>

definition getPPDCacheEntry ::
  "('desc :: zero) environment \<Rightarrow> string \<Rightarrow> 'desc ppdCache
     \<Rightarrow> (error + 'desc \<times> string \<times> string) \<times> 'desc ppdCache" where
  "getPPDCacheEntry env name pc =
     (case cache pc name of
        None \<Rightarrow>
          (case createPPDCacheEntry env name (held pc) of
             (Inl err, r) \<Rightarrow> (Inl err, pc\<lparr>held := r\<rparr>)
           | (Inr pce, r) \<Rightarrow>
               (case refresh env pce r of
                  (Some err, pce, r) \<Rightarrow> (Inl err, pc\<lparr>held := free pce r\<rparr>)
                | (None, pce, r) \<Rightarrow>
                    (let pc = pc\<lparr>held := r\<rparr>;
                         pc = (case cache pc name of
                                 Some firstPCE \<Rightarrow>
                                   pc\<lparr>cache := (cache pc)(name := None),
                                      held := free firstPCE (held pc)\<rparr>
                               | None \<Rightarrow> pc);
                         pc = pc\<lparr>cache := (cache pc)(name \<mapsto> pce)\<rparr>
                     in (Inr (getFields pce), pc))))
      | Some pce \<Rightarrow>
          (case refresh env pce (held pc) of
             (Some err, pce, r) \<Rightarrow>
               (Inl err, pc\<lparr>cache := (cache pc)(name := None), held := free pce r\<rparr>)
           | (None, pce, r) \<Rightarrow>
               (Inr (getFields pce),
                pc\<lparr>cache := (cache pc)(name \<mapsto> pce), held := r\<rparr>)))"

subsection \<open>What the statement about the cache uses\<close>

text \<open>
  An entry whose manufacturer and model are not empty, and a cache of such entries.
  (Of the description nothing of the kind can be asked: it is a struct, and the
  translator may return the zero-valued one.)
\<close>

definition complete :: "'desc ppdCacheEntry \<Rightarrow> bool" where
  "complete pce = (manufacturer pce \<noteq> [] \<and> model pce \<noteq> [])"

definition cacheComplete :: "(string \<rightharpoonup> 'desc ppdCacheEntry) \<Rightarrow> bool" where
  "cacheComplete c = (\<forall>n pce. c n = Some pce \<longrightarrow> complete pce)"

text \<open>The print system never answers ``unchanged'' to the stamp zero of a new entry.\<close>

definition changedAtZero :: "'desc environment \<Rightarrow> bool" where
  "changedAtZero env = (\<forall>n. fst (getPPD env n 0) \<noteq> Inr None)"

text \<open>
  A print system to run the lookup with: the PPD has the stamp 7, every file
  operation succeeds, and the translation is complete.
\<close>

definition sampleEnvironment :: "nat environment" where
  "sampleEnvironment =
     \<lparr>TempFile = Inr ''/tmp/cups-connector-ppd-1'',
      getPPD = (\<lambda>n m. if m < 7 then (Inr (Some ''/tmp/cups-ppd''), 7) else (Inr None, m)),
      Open = (\<lambda>f. None), OpenFile = (\<lambda>f. None),
      Copy = (\<lambda>f. (''*PPD-Adobe: 4.3'', None)),
      translatePPD = (\<lambda>c. (Some 1, ''Acme'', ''LaserOne''))\<rparr>"

definition emptyCache :: "nat ppdCache" where
  "emptyCache =
     \<lparr>cache = Map.empty,
      held = \<lparr>tempFiles = Map.empty, cStrings = Map.empty, nextCString = 0\<rparr>\<rparr>"

text \<open>
  An entry cached with the stamp 7, with what it holds; and a print system whose
  PPD has changed (stamp 9) into one that the translator cannot read.
\<close>

definition cachedEntry :: "nat ppdCacheEntry" where
  "cachedEntry =
     \<lparr>printername = 0, modtime = 7, filename = ''/tmp/cups-connector-ppd-1'',
      description = 1, manufacturer = ''Acme'', model = ''LaserOne''\<rparr>"

definition cachedResources :: resources where
  "cachedResources =
     \<lparr>tempFiles = [''/tmp/cups-connector-ppd-1'' \<mapsto> ''*PPD-Adobe: 4.3''],
      cStrings = [0 \<mapsto> ''office''], nextCString = 1\<rparr>"

definition brokenEnvironment :: "nat environment" where
  "brokenEnvironment =
     sampleEnvironment
       \<lparr>getPPD := (\<lambda>n m. (Inr (Some ''/tmp/cups-ppd''), 9)),
        Copy := (\<lambda>f. (''garbage'', None)),
        translatePPD := (\<lambda>c. (None, [], []))\<rparr>"

text \<open>A print system that answers ``unchanged'' whatever the stamp.\<close>

definition unchangedEnvironment :: "nat environment" where
  "unchangedEnvironment = sampleEnvironment\<lparr>getPPD := (\<lambda>n m. (Inr None, m))\<rparr>"

text \<open>
  A print system whose translator returns a pointer to the zero-valued description,
  with a manufacturer and a model.
\<close>

definition zeroDescriptionEnvironment :: "nat environment" where
  "zeroDescriptionEnvironment =
     sampleEnvironment\<lparr>translatePPD := (\<lambda>c. (Some 0, ''Acme'', ''LaserOne''))\<rparr>"

section \<open>Properties of the reconciliation\<close>

subsection \<open>The field comparison\<close>

lemma stringLess_irrefl: "\<not> stringLess a a"
  by (induction a) auto

lemma flag_if:
  "(if c then d\<lparr>DefaultDisplayNameChanged := True\<rparr> else d) = DefaultDisplayNameChanged_update (\<lambda>x. c \<or> x) d"
  "(if c then d\<lparr>ManufacturerChanged := True\<rparr> else d) = ManufacturerChanged_update (\<lambda>x. c \<or> x) d"
  "(if c then d\<lparr>ModelChanged := True\<rparr> else d) = ModelChanged_update (\<lambda>x. c \<or> x) d"
  "(if c then d\<lparr>GCPVersionChanged := True\<rparr> else d) = GCPVersionChanged_update (\<lambda>x. c \<or> x) d"
  "(if c then d\<lparr>SetupURLChanged := True\<rparr> else d) = SetupURLChanged_update (\<lambda>x. c \<or> x) d"
  "(if c then d\<lparr>SupportURLChanged := True\<rparr> else d) = SupportURLChanged_update (\<lambda>x. c \<or> x) d"
  "(if c then d\<lparr>UpdateURLChanged := True\<rparr> else d) = UpdateURLChanged_update (\<lambda>x. c \<or> x) d"
  "(if c then d\<lparr>ConnectorVersionChanged := True\<rparr> else d) = ConnectorVersionChanged_update (\<lambda>x. c \<or> x) d"
  "(if c then d\<lparr>StateChanged := True\<rparr> else d) = StateChanged_update (\<lambda>x. c \<or> x) d"
  "(if c then d\<lparr>DescriptionChanged := True\<rparr> else d) = DescriptionChanged_update (\<lambda>x. c \<or> x) d"
  "(if c then d\<lparr>CapsHashChanged := True\<rparr> else d) = CapsHashChanged_update (\<lambda>x. c \<or> x) d"
  "(if c then d\<lparr>TagsChanged := True\<rparr> else d) = TagsChanged_update (\<lambda>x. c \<or> x) d"
  by (cases c; simp)+

lemma tags_cond:
  "(Tags pg ''tagshash'' = None \<or> Tags pc ''tagshash'' = None \<or> Tags pg ''tagshash'' \<noteq> Tags pc ''tagshash'')
    = fieldDiffers FTags pc pg"
  by (auto split: option.splits)

lemma built_diff:
  "TagsChanged_update (\<lambda>x. c12 \<or> x) (CapsHashChanged_update (\<lambda>x. c11 \<or> x)
    (DescriptionChanged_update (\<lambda>x. c10 \<or> x) (StateChanged_update (\<lambda>x. c9 \<or> x)
    (ConnectorVersionChanged_update (\<lambda>x. c8 \<or> x) (UpdateURLChanged_update (\<lambda>x. c7 \<or> x)
    (SupportURLChanged_update (\<lambda>x. c6 \<or> x) (SetupURLChanged_update (\<lambda>x. c5 \<or> x)
    (GCPVersionChanged_update (\<lambda>x. c4 \<or> x) (ModelChanged_update (\<lambda>x. c3 \<or> x)
    (ManufacturerChanged_update (\<lambda>x. c2 \<or> x) (DefaultDisplayNameChanged_update (\<lambda>x. c1 \<or> x)
    (newPrinterDiff UpdatePrinter pc))))))))))))
   = \<lparr>Operation = UpdatePrinter, Printer = pc,
      DefaultDisplayNameChanged = c1, ManufacturerChanged = c2, ModelChanged = c3,
      GCPVersionChanged = c4, SetupURLChanged = c5, SupportURLChanged = c6,
      UpdateURLChanged = c7, ConnectorVersionChanged = c8, StateChanged = c9,
      DescriptionChanged = c10, CapsHashChanged = c11, TagsChanged = c12\<rparr>"
  by (simp add: newPrinterDiff_def)

lemma diffPrinter_closed:
  "diffPrinter pc pg =
    (if stringLess (GCPVersion pc) (GCPVersion pg)
     then Inl (Panic ''GCP version cannot be downgraded; delete GCP printers'')
     else if differingFields pc pg \<noteq> [] then Inr (updateDiff pc pg)
     else Inr (newPrinterDiff NoChangeToPrinter pg))"
proof -
  have v: "(fieldDiffers FGCPVersion pc pg \<and> stringLess (GCPVersion pc) (GCPVersion pg)) = stringLess (GCPVersion pc) (GCPVersion pg)"
    using stringLess_irrefl by fastforce
  have ne: "(differingFields pc pg \<noteq> []) =
     (fieldDiffers FDefaultDisplayName pc pg \<or> fieldDiffers FManufacturer pc pg \<or>
      fieldDiffers FModel pc pg \<or> fieldDiffers FGCPVersion pc pg \<or>
      fieldDiffers FSetupURL pc pg \<or> fieldDiffers FSupportURL pc pg \<or>
      fieldDiffers FUpdateURL pc pg \<or> fieldDiffers FConnectorVersion pc pg \<or>
      fieldDiffers FState pc pg \<or> fieldDiffers FDescription pc pg \<or>
      fieldDiffers FCapsHash pc pg \<or> fieldDiffers FTags pc pg)"
    unfolding differingFields_def fieldGroups_def filter_empty_conv by (simp del: fieldDiffers.simps)
  have sym: "(DefaultDisplayName pg \<noteq> DefaultDisplayName pc) = fieldDiffers FDefaultDisplayName pc pg"
    "(Manufacturer pg \<noteq> Manufacturer pc) = fieldDiffers FManufacturer pc pg"
    "(Model pg \<noteq> Model pc) = fieldDiffers FModel pc pg"
    "(GCPVersion pg \<noteq> GCPVersion pc) = fieldDiffers FGCPVersion pc pg"
    "(SetupURL pg \<noteq> SetupURL pc) = fieldDiffers FSetupURL pc pg"
    "(SupportURL pg \<noteq> SupportURL pc) = fieldDiffers FSupportURL pc pg"
    "(UpdateURL pg \<noteq> UpdateURL pc) = fieldDiffers FUpdateURL pc pg"
    "(ConnectorVersion pg \<noteq> ConnectorVersion pc) = fieldDiffers FConnectorVersion pc pg"
    "(State pg \<noteq> State pc) = fieldDiffers FState pc pg"
    "(Description pg \<noteq> Description pc) = fieldDiffers FDescription pc pg"
    "(CapsHash pg \<noteq> CapsHash pc) = fieldDiffers FCapsHash pc pg"
    by auto
  show ?thesis
    unfolding diffPrinter_def Let_def flag_if tags_cond sym v built_diff ne
    by (simp add: updateDiff_def del: fieldDiffers.simps split del: if_split cong: if_cong)
qed



lemma gcpLoop_Cons:
  "gcpLoop byName (pg # rest) (ds, seen, dirty) =
     (case remoteDiff byName seen pg of
        Inl e \<Rightarrow> Inl e
      | Inr d \<Rightarrow> gcpLoop byName rest
          (ds @ [d], insert (Name pg) seen, dirty \<or> Operation d \<noteq> NoChangeToPrinter))"
  by (simp add: remoteDiff_def newPrinterDiff_def insert_absorb split: option.split sum.split)

lemma gcpLoop_append:
  "gcpLoop byName gcp (ds, seen, dirty) = Inr (ds', seen', dirty') \<Longrightarrow>
     \<exists>new. ds' = ds @ new \<and> length new = length gcp \<and> seen' = seen \<union> Name ` set gcp \<and>
       dirty' = (dirty \<or> (\<exists>d\<in>set new. Operation d \<noteq> NoChangeToPrinter))"
proof (induction gcp arbitrary: ds seen dirty)
  case Nil
  then show ?case by simp
next
  case (Cons pg rest)
  from Cons.prems obtain d where d: "remoteDiff byName seen pg = Inr d"
    and r: "gcpLoop byName rest (ds @ [d], insert (Name pg) seen, dirty \<or> Operation d \<noteq> NoChangeToPrinter) = Inr (ds', seen', dirty')"
    by (auto simp: gcpLoop_Cons simp del: gcpLoop.simps split: sum.splits)
  from Cons.IH[OF r] obtain new where n: "ds' = (ds @ [d]) @ new" "length new = length rest"
     "seen' = insert (Name pg) seen \<union> Name ` set rest"
     "dirty' = ((dirty \<or> Operation d \<noteq> NoChangeToPrinter) \<or> (\<exists>d\<in>set new. Operation d \<noteq> NoChangeToPrinter))"
    by blast
  show ?case
    by (rule exI[of _ "d # new"]) (use n in auto)
qed

lemma gcpLoop_nth:
  "gcpLoop byName gcp (ds, seen, dirty) = Inr (ds', seen', dirty') \<Longrightarrow> i < length gcp \<Longrightarrow>
     remoteDiff byName (seen \<union> Name ` set (take i gcp)) (gcp ! i) = Inr (ds' ! (length ds + i))"
proof (induction gcp arbitrary: ds seen dirty i)
  case Nil
  then show ?case by simp
next
  case (Cons pg rest)
  from Cons.prems(1) obtain d where d: "remoteDiff byName seen pg = Inr d"
    and r: "gcpLoop byName rest (ds @ [d], insert (Name pg) seen, dirty \<or> Operation d \<noteq> NoChangeToPrinter) = Inr (ds', seen', dirty')"
    by (auto simp: gcpLoop_Cons simp del: gcpLoop.simps split: sum.splits)
  from gcpLoop_append[OF r] obtain new where n: "ds' = (ds @ [d]) @ new" by blast
  show ?case
  proof (cases i)
    case 0
    then show ?thesis using d n by (simp add: nth_append)
  next
    case (Suc j)
    with Cons.prems(2) have j: "j < length rest" by simp
    from Cons.IH[OF r j] show ?thesis using Suc by simp
  qed
qed

lemma cupsLoop_eq:
  "cupsLoop cups (ds, seen, dirty) =
     (ds @ map (newPrinterDiff RegisterPrinter) (filter (\<lambda>p. Name p \<notin> seen) cups), seen,
      dirty \<or> (\<exists>p\<in>set cups. Name p \<notin> seen))"
  by (induction cups arbitrary: ds dirty) auto

lemma diffPrinter_op:
  "diffPrinter pc pg = Inr d \<Longrightarrow>
     (Operation d = UpdatePrinter \<and> Printer d = pc \<and> d = updateDiff pc pg \<and> differingFields pc pg \<noteq> []) \<or>
     (Operation d = NoChangeToPrinter \<and> Printer d = pg \<and> d = newPrinterDiff NoChangeToPrinter pg \<and> differingFields pc pg = [])"
  by (auto simp: diffPrinter_closed updateDiff_def newPrinterDiff_def split: if_splits)

lemma changeFlag_updateDiff: "changeFlag f (updateDiff pc pg) = fieldDiffers f pc pg"
  by (cases f) (simp_all add: updateDiff_def del: fieldDiffers.simps)

lemma changedFlags_updateDiff: "changedFlags (updateDiff pc pg) = differingFields pc pg"
  by (simp add: changedFlags_def differingFields_def changeFlag_updateDiff)

lemma printerSliceToMapByName_Nil: "printerSliceToMapByName [] n = None"
  by (simp add: printerSliceToMapByName_def)

lemma printerSliceToMapByName_snoc:
  "printerSliceToMapByName (s @ [p]) n =
     (if n = Name p then Some p else printerSliceToMapByName s n)"
  by (simp add: printerSliceToMapByName_def)

lemma newPrinterDiff_sel:
  "Operation (newPrinterDiff op p) = op" "Printer (newPrinterDiff op p) = p"
  by (simp_all add: newPrinterDiff_def)

lemma printerSliceToMapByName_None:
  "(printerSliceToMapByName s n = None) = (n \<notin> Name ` set s)"
  by (induction s rule: rev_induct)
     (auto simp: printerSliceToMapByName_snoc printerSliceToMapByName_Nil)

lemma printerSliceToMapByName_Some:
  "printerSliceToMapByName s n = Some p \<Longrightarrow> p \<in> set s \<and> Name p = n"
  by (induction s rule: rev_induct)
     (auto simp: printerSliceToMapByName_snoc printerSliceToMapByName_Nil split: if_splits)

lemma printerSliceToMapByName_distinct:
  "distinct (map Name s) \<Longrightarrow> p \<in> set s \<Longrightarrow> printerSliceToMapByName s (Name p) = Some p"
proof (induction s rule: rev_induct)
  case Nil
  then show ?case by simp
next
  case (snoc x xs)
  show ?case
  proof (cases "p = x")
    case True
    then show ?thesis by (simp add: printerSliceToMapByName_snoc)
  next
    case False
    with snoc.prems have px: "p \<in> set xs" and nx: "Name x \<notin> Name ` set xs"
      and dx: "distinct (map Name xs)" by auto
    from px nx have "Name p \<noteq> Name x" by (metis imageI)
    with snoc.IH[OF dx px] show ?thesis by (simp add: printerSliceToMapByName_snoc)
  qed
qed

lemma remoteDiff_op:
  "remoteDiff byName seen pg = Inr d \<Longrightarrow> Operation d \<noteq> RegisterPrinter"
  by (auto simp: remoteDiff_def newPrinterDiff_def split: if_splits option.splits dest: diffPrinter_op)

lemma remoteDiff_Delete:
  "remoteDiff byName seen pg = Inr d \<Longrightarrow>
     (Operation d = DeletePrinter) = (Name pg \<in> seen \<or> byName (Name pg) = None)"
  by (auto simp: remoteDiff_def newPrinterDiff_def split: if_splits option.splits dest: diffPrinter_op)

lemma remoteDiff_Delete_eq:
  "remoteDiff byName seen pg = Inr d \<Longrightarrow> Operation d = DeletePrinter \<Longrightarrow>
     d = newPrinterDiff DeletePrinter pg"
  by (auto simp: remoteDiff_def newPrinterDiff_def split: if_splits option.splits dest: diffPrinter_op)

lemma accumulateDiffs_Inr:
  "accumulateDiffs cups gcp = Inr (ds, seen, dirty) \<Longrightarrow>
   \<exists>new dirty0. gcpLoop (printerSliceToMapByName cups) gcp ([], {}, False) = Inr (new, Name ` set gcp, dirty0) \<and>
      length new = length gcp \<and>
      dirty0 = (\<exists>d\<in>set new. Operation d \<noteq> NoChangeToPrinter) \<and>
      ds = new @ map (newPrinterDiff RegisterPrinter) (filter (\<lambda>p. Name p \<notin> Name ` set gcp) cups) \<and>
      seen = Name ` set gcp \<and>
      dirty = (dirty0 \<or> (\<exists>p\<in>set cups. Name p \<notin> Name ` set gcp))"
proof -
  assume a: "accumulateDiffs cups gcp = Inr (ds, seen, dirty)"
  then obtain st where g: "gcpLoop (printerSliceToMapByName cups) gcp ([], {}, False) = Inr st"
    and c: "cupsLoop cups st = (ds, seen, dirty)"
    by (auto simp: accumulateDiffs_def split: sum.splits)
  obtain new seen0 dirty0 where st: "st = (new, seen0, dirty0)" by (cases st) auto
  from gcpLoop_append[OF g[unfolded st]]
  have n: "length new = length gcp" "seen0 = Name ` set gcp"
    "dirty0 = (\<exists>d\<in>set new. Operation d \<noteq> NoChangeToPrinter)" by auto
  from c show ?thesis unfolding st cupsLoop_eq using g n st by auto
qed

lemma dirty_iff:
  assumes "accumulateDiffs cups gcp = Inr (ds, seen, dirty)"
  shows "dirty = (\<exists>d\<in>set ds. Operation d \<noteq> NoChangeToPrinter)"
proof -
  from accumulateDiffs_Inr[OF assms] obtain new dirty0 where
    n: "dirty0 = (\<exists>d\<in>set new. Operation d \<noteq> NoChangeToPrinter)"
       "ds = new @ map (newPrinterDiff RegisterPrinter) (filter (\<lambda>p. Name p \<notin> Name ` set gcp) cups)"
       "dirty = (dirty0 \<or> (\<exists>p\<in>set cups. Name p \<notin> Name ` set gcp))" by blast
  have "(\<exists>d\<in>set (map (newPrinterDiff RegisterPrinter) (filter (\<lambda>p. Name p \<notin> Name ` set gcp) cups)).
            Operation d \<noteq> NoChangeToPrinter) = (\<exists>p\<in>set cups. Name p \<notin> Name ` set gcp)"
    by (simp add: newPrinterDiff_sel Bex_def)
  then show ?thesis unfolding n by (simp add: bex_Un del: set_map set_filter)
qed

text \<open>The equations that evaluate the functions on the sample printers.\<close>

lemmas eval_simps = samplePrinter_def printerSliceToMapByName_def diffPrinter_closed
  differingFields_def fieldGroups_def accumulateDiffs_def DiffPrinters_def

subsection \<open>The all-or-nothing result\<close>



subsection \<open>Registrations and deletions\<close>

lemma gcpLoop_rel:
  "gcpLoop byName gcp (ds, seen, dirty) = Inr (ds', seen', dirty') \<Longrightarrow>
     \<exists>new. ds' = ds @ new \<and>
       list_all2 (\<lambda>pg d. \<exists>s. remoteDiff byName s pg = Inr d) gcp new"
proof (induction gcp arbitrary: ds seen dirty)
  case Nil
  then show ?case by simp
next
  case (Cons pg rest)
  from Cons.prems obtain d where d: "remoteDiff byName seen pg = Inr d"
    and r: "gcpLoop byName rest (ds @ [d], insert (Name pg) seen,
              dirty \<or> Operation d \<noteq> NoChangeToPrinter) = Inr (ds', seen', dirty')"
    by (auto simp: gcpLoop_Cons simp del: gcpLoop.simps split: sum.splits)
  from Cons.IH[OF r] obtain new where n: "ds' = (ds @ [d]) @ new"
    "list_all2 (\<lambda>pg d. \<exists>s. remoteDiff byName s pg = Inr d) rest new" by blast
  show ?case
    by (rule exI[of _ "d # new"]) (use n d in auto)
qed

lemma rel_no_Register:
  "list_all2 (\<lambda>pg d. \<exists>s. remoteDiff byName s pg = Inr d) gcp new \<Longrightarrow>
     filter (\<lambda>d. Operation d = RegisterPrinter) new = []"
  by (induction rule: list_all2_induct) (auto dest: remoteDiff_op)

lemma remoteDiff_Name:
  "remoteDiff byName s pg = Inr d \<Longrightarrow> Operation d = DeletePrinter \<Longrightarrow> Printer d = pg"
  by (drule (1) remoteDiff_Delete_eq) (simp add: newPrinterDiff_sel)

lemma rel_stale_Delete:
  "list_all2 (\<lambda>pg d. \<exists>s. remoteDiff byName s pg = Inr d) gcp new \<Longrightarrow>
     filter (\<lambda>d. Operation d = DeletePrinter \<and> byName (Name (Printer d)) = None) new =
       map (newPrinterDiff DeletePrinter) (filter (\<lambda>p. byName (Name p) = None) gcp)"
proof (induction rule: list_all2_induct)
  case Nil
  then show ?case by simp
next
  case (Cons pg gcp d new)
  from Cons.hyps(1) obtain s where s: "remoteDiff byName s pg = Inr d" by blast
  show ?case
  proof (cases "byName (Name pg) = None")
    case True
    with s have "d = newPrinterDiff DeletePrinter pg"
      by (auto simp: remoteDiff_def split: if_splits)
    with True Cons.IH show ?thesis by (simp add: newPrinterDiff_sel)
  next
    case False
    have "\<not> (Operation d = DeletePrinter \<and> byName (Name (Printer d)) = None)"
      using remoteDiff_Name[OF s] False by auto
    with False Cons.IH show ?thesis by simp
  qed
qed

text \<open>
  Claim C2. Whenever \<open>DiffPrinters\<close> returns, the Register diffs of its result are, in
  order, one for each local printer whose name no remote printer has, and the Delete
  diffs for printers whose name no local printer has are, in order, one for each such
  remote printer. The correspondence is one diff per printer of the snapshot (per
  position), so a printer yields exactly one such diff.
\<close>

theorem DiffPrinters_complete:
  assumes "DiffPrinters cupsPrinters gcpPrinters = Inr r"
  shows "filter (\<lambda>d. Operation d = RegisterPrinter) (diffsOf r) =
           map (newPrinterDiff RegisterPrinter)
             (filter (\<lambda>p. Name p \<notin> Name ` set gcpPrinters) cupsPrinters) \<and>
         filter (\<lambda>d. Operation d = DeletePrinter \<and>
                      Name (Printer d) \<notin> Name ` set cupsPrinters) (diffsOf r) =
           map (newPrinterDiff DeletePrinter)
             (filter (\<lambda>p. Name p \<notin> Name ` set cupsPrinters) gcpPrinters)"
proof -
  let ?byName = "printerSliceToMapByName cupsPrinters"
  let ?regs = "map (newPrinterDiff RegisterPrinter)
                 (filter (\<lambda>p. Name p \<notin> Name ` set gcpPrinters) cupsPrinters)"
  let ?isReg = "\<lambda>d. Operation d = RegisterPrinter"
  let ?isDel = "\<lambda>d. Operation d = DeletePrinter \<and> Name (Printer d) \<notin> Name ` set cupsPrinters"
  from assms obtain ds seen dirty where
    acc: "accumulateDiffs cupsPrinters gcpPrinters = Inr (ds, seen, dirty)"
    and r: "r = (if dirty then Some ds else None)"
    by (auto simp: DiffPrinters_def split: sum.splits if_splits)
  from accumulateDiffs_Inr[OF acc] obtain new dirty0 where
    g: "gcpLoop ?byName gcpPrinters ([], {}, False) = Inr (new, Name ` set gcpPrinters, dirty0)"
    and ds: "ds = new @ ?regs" by blast
  from gcpLoop_rel[OF g] have rel:
    "list_all2 (\<lambda>pg d. \<exists>s. remoteDiff ?byName s pg = Inr d) gcpPrinters new" by simp
  have none: "\<And>n. (?byName n = None) = (n \<notin> Name ` set cupsPrinters)"
    by (rule printerSliceToMapByName_None)
  have "filter ?isReg ?regs = ?regs" by (simp add: newPrinterDiff_sel)
  with rel_no_Register[OF rel] have e1: "filter ?isReg ds = ?regs" unfolding ds by simp
  have "filter ?isDel ?regs = []" by (simp add: newPrinterDiff_sel)
  with rel_stale_Delete[OF rel] have e2: "filter ?isDel ds =
      map (newPrinterDiff DeletePrinter)
        (filter (\<lambda>p. Name p \<notin> Name ` set cupsPrinters) gcpPrinters)"
    unfolding ds none by simp
  show ?thesis
  proof (cases dirty)
    case True
    with r e1 e2 show ?thesis by (simp add: diffsOf_def)
  next
    case False
    with dirty_iff[OF acc] have all: "\<forall>d\<in>set ds. Operation d = NoChangeToPrinter" by simp
    then have "filter ?isReg ds = []" "filter ?isDel ds = []"
      by (auto simp: filter_empty_conv)
    with e1 e2 r False show ?thesis by (simp add: diffsOf_def)
  qed
qed

text \<open>
  Local printers A and C against remote printers A and B: B is deleted, C is
  registered, A is unchanged.
\<close>

theorem DiffPrinters_complete_witness:
  "DiffPrinters [samplePrinter ''A'', samplePrinter ''C'']
       [samplePrinter ''A'', samplePrinter ''B''] =
     Inr (Some [newPrinterDiff NoChangeToPrinter (samplePrinter ''A''),
                newPrinterDiff DeletePrinter (samplePrinter ''B''),
                newPrinterDiff RegisterPrinter (samplePrinter ''C'')]) \<and>
   filter (\<lambda>d. Operation d = RegisterPrinter)
     [newPrinterDiff NoChangeToPrinter (samplePrinter ''A''),
      newPrinterDiff DeletePrinter (samplePrinter ''B''),
      newPrinterDiff RegisterPrinter (samplePrinter ''C'')] =
     [newPrinterDiff RegisterPrinter (samplePrinter ''C'')] \<and>
   filter (\<lambda>d. Operation d = DeletePrinter \<and>
                Name (Printer d) \<notin> Name ` set [samplePrinter ''A'', samplePrinter ''C''])
     [newPrinterDiff NoChangeToPrinter (samplePrinter ''A''),
      newPrinterDiff DeletePrinter (samplePrinter ''B''),
      newPrinterDiff RegisterPrinter (samplePrinter ''C'')] =
     [newPrinterDiff DeletePrinter (samplePrinter ''B'')]"
proof -
  have run: "DiffPrinters [samplePrinter ''A'', samplePrinter ''C'']
       [samplePrinter ''A'', samplePrinter ''B''] =
     Inr (Some [newPrinterDiff NoChangeToPrinter (samplePrinter ''A''),
                newPrinterDiff DeletePrinter (samplePrinter ''B''),
                newPrinterDiff RegisterPrinter (samplePrinter ''C'')])"
    by (simp add: eval_simps newPrinterDiff_sel)
  from DiffPrinters_complete[OF run] show ?thesis using run
    by (simp add: diffsOf_def newPrinterDiff_sel samplePrinter_def)
qed

subsection \<open>Field flags\<close>

text \<open>
  Claim C3, as the code has it. When exactly one field group differs between the
  local printer \<open>pc\<close> and the remote printer \<open>pg\<close>, and the remote version is not
  greater than the local one, \<open>diffPrinter\<close> returns an Update whose set flags are
  that group's flag alone. In every Update the tags flag is set exactly when the two
  printers do not both carry the tag \<^verbatim>\<open>tagshash\<close> with one and the same value,
  whatever their other tags are.
\<close>

theorem diffPrinter_single_field:
  "(differingFields pc pg = [f] \<and> \<not> stringLess (GCPVersion pc) (GCPVersion pg) \<longrightarrow>
      (\<exists>d. diffPrinter pc pg = Inr d \<and> Operation d = UpdatePrinter \<and> changedFlags d = [f])) \<and>
   (diffPrinter pc pg = Inr d \<and> Operation d = UpdatePrinter \<longrightarrow>
      TagsChanged d = (\<not> (\<exists>h. Tags pc ''tagshash'' = Some h \<and> Tags pg ''tagshash'' = Some h)))"
proof (intro conjI impI)
  assume "differingFields pc pg = [f] \<and> \<not> stringLess (GCPVersion pc) (GCPVersion pg)"
  then have "diffPrinter pc pg = Inr (updateDiff pc pg)" and "differingFields pc pg = [f]"
    by (simp_all add: diffPrinter_closed)
  then show "\<exists>d. diffPrinter pc pg = Inr d \<and> Operation d = UpdatePrinter \<and> changedFlags d = [f]"
    by (simp add: changedFlags_updateDiff) (simp add: updateDiff_def)
next
  assume "diffPrinter pc pg = Inr d \<and> Operation d = UpdatePrinter"
  with diffPrinter_op[of pc pg d] have "d = updateDiff pc pg" by auto
  then have "TagsChanged d = fieldDiffers FTags pc pg" by (simp add: updateDiff_def)
  then show "TagsChanged d = (\<not> (\<exists>h. Tags pc ''tagshash'' = Some h \<and> Tags pg ''tagshash'' = Some h))"
    by (auto split: option.splits)
qed

text \<open>
  Claim C3 as it is worded fails for the version group: with the local version 1.0
  and the remote version 2.0, and nothing else different, there is no Update; the
  function panics.
\<close>

theorem diffPrinter_single_field_counterexample:
  "differingFields ((samplePrinter ''A'')\<lparr>GCPVersion := ''1.0''\<rparr>) (samplePrinter ''A'') = [FGCPVersion] \<and>
   diffPrinter ((samplePrinter ''A'')\<lparr>GCPVersion := ''1.0''\<rparr>) (samplePrinter ''A'') =
     Inl (Panic ''GCP version cannot be downgraded; delete GCP printers'')"
  by (simp add: eval_simps)

text \<open>
  A local version 2.1 against the remote 2.0, all else equal: an Update with the
  version flag alone.
\<close>

theorem diffPrinter_single_field_witness:
  "differingFields ((samplePrinter ''A'')\<lparr>GCPVersion := ''2.1''\<rparr>) (samplePrinter ''A'') = [FGCPVersion] \<and>
   \<not> stringLess ''2.1'' ''2.0'' \<and>
   (\<exists>d. diffPrinter ((samplePrinter ''A'')\<lparr>GCPVersion := ''2.1''\<rparr>) (samplePrinter ''A'') = Inr d \<and>
        Operation d = UpdatePrinter \<and> changedFlags d = [FGCPVersion] \<and> \<not> TagsChanged d)"
proof -
  have h: "differingFields ((samplePrinter ''A'')\<lparr>GCPVersion := ''2.1''\<rparr>) (samplePrinter ''A'') = [FGCPVersion] \<and>
    \<not> stringLess (GCPVersion ((samplePrinter ''A'')\<lparr>GCPVersion := ''2.1''\<rparr>)) (GCPVersion (samplePrinter ''A''))"
    by (simp add: eval_simps)
  from diffPrinter_single_field[of "(samplePrinter ''A'')\<lparr>GCPVersion := ''2.1''\<rparr>" "samplePrinter ''A''" FGCPVersion] h
  obtain d where d: "diffPrinter ((samplePrinter ''A'')\<lparr>GCPVersion := ''2.1''\<rparr>) (samplePrinter ''A'') = Inr d"
    "Operation d = UpdatePrinter" "changedFlags d = [FGCPVersion]" by blast
  from diffPrinter_single_field[of "(samplePrinter ''A'')\<lparr>GCPVersion := ''2.1''\<rparr>" "samplePrinter ''A''" FGCPVersion d] d
  have "\<not> TagsChanged d" by (simp add: samplePrinter_def)
  with d h show ?thesis by (simp add: samplePrinter_def)
qed

subsection \<open>The version guard\<close>

text \<open>\<open>stringLess\<close> is the lexicographic order on the bytes.\<close>

lemma stringLess_lexord:
  "stringLess a b = ((a, b) \<in> lexord {(x, y). (of_char x :: nat) < of_char y})"
  by (induction a b rule: stringLess.induct) auto

text \<open>
  Claim C6. \<open>diffPrinter\<close> panics if and only if the remote version string is
  greater than the local one; otherwise it returns an Update or a NoChange diff.
\<close>

theorem diffPrinter_version_guard:
  "(\<exists>e. diffPrinter pc pg = Inl e) = stringLess (GCPVersion pc) (GCPVersion pg) \<and>
   (\<not> stringLess (GCPVersion pc) (GCPVersion pg) \<longrightarrow>
      (\<exists>d. diffPrinter pc pg = Inr d \<and>
           (Operation d = UpdatePrinter \<or> Operation d = NoChangeToPrinter)))"
  by (simp add: diffPrinter_closed updateDiff_def newPrinterDiff_sel)

text \<open>
  The specification's two examples: local 1.0 against remote 2.0 panics, local 2.0
  against remote 1.0 does not.
\<close>

theorem diffPrinter_version_guard_witness:
  "stringLess ''1.0'' ''2.0'' \<and>
   (\<exists>e. diffPrinter ((samplePrinter ''A'')\<lparr>GCPVersion := ''1.0''\<rparr>) (samplePrinter ''A'') = Inl e) \<and>
   \<not> stringLess ''2.0'' ''1.0'' \<and>
   (\<exists>d. diffPrinter (samplePrinter ''A'') ((samplePrinter ''A'')\<lparr>GCPVersion := ''1.0''\<rparr>) = Inr d \<and>
        (Operation d = UpdatePrinter \<or> Operation d = NoChangeToPrinter))"
  using diffPrinter_version_guard[of "(samplePrinter ''A'')\<lparr>GCPVersion := ''1.0''\<rparr>" "samplePrinter ''A''"]
        diffPrinter_version_guard[of "samplePrinter ''A''" "(samplePrinter ''A'')\<lparr>GCPVersion := ''1.0''\<rparr>"]
  by (simp add: samplePrinter_def)

subsection \<open>Duplicate remote printers\<close>

lemma DiffPrinters_Inr:
  assumes "DiffPrinters cups gcp = Inr r"
  shows "\<exists>new dirty0 dirty.
      gcpLoop (printerSliceToMapByName cups) gcp ([], {}, False) =
        Inr (new, Name ` set gcp, dirty0) \<and>
      length new = length gcp \<and>
      dirty0 = (\<exists>d\<in>set new. Operation d \<noteq> NoChangeToPrinter) \<and>
      dirty = (dirty0 \<or> (\<exists>p\<in>set cups. Name p \<notin> Name ` set gcp)) \<and>
      r = (if dirty
           then Some (new @ map (newPrinterDiff RegisterPrinter)
                        (filter (\<lambda>p. Name p \<notin> Name ` set gcp) cups))
           else None)"
proof -
  from assms obtain ds seen dirty where
    acc: "accumulateDiffs cups gcp = Inr (ds, seen, dirty)"
    and r: "r = (if dirty then Some ds else None)"
    by (auto simp: DiffPrinters_def split: sum.splits if_splits)
  from accumulateDiffs_Inr[OF acc] r show ?thesis by blast
qed

text \<open>
  Claim C4. Whenever \<open>DiffPrinters\<close> returns, a remote printer whose name an earlier
  remote printer has already had makes the result a list (the run is dirty), and the
  diff at that printer's position is the Delete of that very printer, whatever the
  local snapshot holds. So only the first remote printer of a name can get an Update
  or a NoChange diff.
\<close>

theorem DiffPrinters_duplicate_remote:
  assumes "DiffPrinters cupsPrinters gcpPrinters = Inr r"
    and "i < length gcpPrinters"
    and "Name (gcpPrinters ! i) \<in> Name ` set (take i gcpPrinters)"
  shows "\<exists>diffs. r = Some diffs \<and> i < length diffs \<and>
           diffs ! i = newPrinterDiff DeletePrinter (gcpPrinters ! i)"
proof -
  let ?byName = "printerSliceToMapByName cupsPrinters"
  from DiffPrinters_Inr[OF assms(1)] obtain new dirty0 dirty where
    g: "gcpLoop ?byName gcpPrinters ([], {}, False) = Inr (new, Name ` set gcpPrinters, dirty0)"
    and len: "length new = length gcpPrinters"
    and d0: "dirty0 = (\<exists>d\<in>set new. Operation d \<noteq> NoChangeToPrinter)"
    and d: "dirty = (dirty0 \<or> (\<exists>p\<in>set cupsPrinters. Name p \<notin> Name ` set gcpPrinters))"
    and r: "r = (if dirty
           then Some (new @ map (newPrinterDiff RegisterPrinter)
                        (filter (\<lambda>p. Name p \<notin> Name ` set gcpPrinters) cupsPrinters))
           else None)" by blast
  from gcpLoop_nth[OF g assms(2)] assms(3)
  have ni: "new ! i = newPrinterDiff DeletePrinter (gcpPrinters ! i)"
    by (simp add: remoteDiff_def)
  from assms(2) len have "new ! i \<in> set new" by simp
  with ni have dirty0 unfolding d0 by (metis newPrinterDiff_sel(1) PrinterDiffOperation.distinct(11))
  with d r ni len assms(2) show ?thesis by (simp add: nth_append)
qed

text \<open>
  Two remote registrations of printer A, equal to the local A in every compared
  field: the first is kept, the second deleted.
\<close>

theorem DiffPrinters_duplicate_remote_witness:
  "DiffPrinters [samplePrinter ''A'']
      [(samplePrinter ''A'')\<lparr>GCPID := ''g1''\<rparr>, (samplePrinter ''A'')\<lparr>GCPID := ''g2''\<rparr>] =
     Inr (Some [newPrinterDiff NoChangeToPrinter ((samplePrinter ''A'')\<lparr>GCPID := ''g1''\<rparr>),
                newPrinterDiff DeletePrinter ((samplePrinter ''A'')\<lparr>GCPID := ''g2''\<rparr>)]) \<and>
   [newPrinterDiff NoChangeToPrinter ((samplePrinter ''A'')\<lparr>GCPID := ''g1''\<rparr>),
    newPrinterDiff DeletePrinter ((samplePrinter ''A'')\<lparr>GCPID := ''g2''\<rparr>)] ! 1 =
     newPrinterDiff DeletePrinter ((samplePrinter ''A'')\<lparr>GCPID := ''g2''\<rparr>)"
proof -
  let ?gcp = "[(samplePrinter ''A'')\<lparr>GCPID := ''g1''\<rparr>, (samplePrinter ''A'')\<lparr>GCPID := ''g2''\<rparr>]"
  have run: "DiffPrinters [samplePrinter ''A''] ?gcp =
     Inr (Some [newPrinterDiff NoChangeToPrinter ((samplePrinter ''A'')\<lparr>GCPID := ''g1''\<rparr>),
                newPrinterDiff DeletePrinter ((samplePrinter ''A'')\<lparr>GCPID := ''g2''\<rparr>)])"
    by (simp add: eval_simps newPrinterDiff_sel)
  have i: "1 < length ?gcp" by simp
  have dup: "Name (?gcp ! 1) \<in> Name ` set (take 1 ?gcp)" by (simp add: samplePrinter_def)
  from DiffPrinters_duplicate_remote[OF run i dup] run show ?thesis by simp
qed

subsection \<open>The payload of a matched printer's diff\<close>

text \<open>
  Claim C7. In a returned list, the diff at the position of a remote printer that is
  the first of its name and whose name the map of local printers holds (for a local
  printer of that name) is either an Update carrying that local printer with the
  remote printer's \<^verbatim>\<open>GCPID\<close> and \<^verbatim>\<open>CUPSJobSemaphore\<close>, or a NoChange carrying
  the remote printer as it is.
\<close>

theorem DiffPrinters_matched_payload:
  assumes "DiffPrinters cupsPrinters gcpPrinters = Inr (Some diffs)"
    and "i < length gcpPrinters"
    and "Name (gcpPrinters ! i) \<notin> Name ` set (take i gcpPrinters)"
    and "printerSliceToMapByName cupsPrinters (Name (gcpPrinters ! i)) = Some cupsPrinter"
  shows "cupsPrinter \<in> set cupsPrinters \<and> Name cupsPrinter = Name (gcpPrinters ! i) \<and>
         ((Operation (diffs ! i) = UpdatePrinter \<and>
           Printer (diffs ! i) =
             cupsPrinter\<lparr>GCPID := GCPID (gcpPrinters ! i),
                          CUPSJobSemaphore := CUPSJobSemaphore (gcpPrinters ! i)\<rparr>) \<or>
          (Operation (diffs ! i) = NoChangeToPrinter \<and> Printer (diffs ! i) = gcpPrinters ! i))"
proof -
  let ?byName = "printerSliceToMapByName cupsPrinters"
  from DiffPrinters_Inr[OF assms(1)] obtain new dirty0 where
    g: "gcpLoop ?byName gcpPrinters ([], {}, False) = Inr (new, Name ` set gcpPrinters, dirty0)"
    and len: "length new = length gcpPrinters"
    and r: "diffs = new @ map (newPrinterDiff RegisterPrinter)
                        (filter (\<lambda>p. Name p \<notin> Name ` set gcpPrinters) cupsPrinters)"
    by (auto split: if_splits)
  from gcpLoop_nth[OF g assms(2)] assms(3,4)
  have "diffPrinter (cupsPrinter\<lparr>GCPID := GCPID (gcpPrinters ! i),
                         CUPSJobSemaphore := CUPSJobSemaphore (gcpPrinters ! i)\<rparr>) (gcpPrinters ! i)
         = Inr (new ! i)"
    by (simp add: remoteDiff_def)
  from diffPrinter_op[OF this] r len assms(2) printerSliceToMapByName_Some[OF assms(4)]
  show ?thesis by (auto simp: nth_append)
qed

text \<open>
  Printer A has a new display name locally: its Update carries the local record
  with the remote id and semaphore. Printer B is unchanged: its NoChange carries the
  remote record.
\<close>

theorem DiffPrinters_matched_payload_witness:
  "DiffPrinters [(samplePrinter ''A'')\<lparr>DefaultDisplayName := ''Lobby''\<rparr>, samplePrinter ''B'']
      [(samplePrinter ''A'')\<lparr>GCPID := ''g1'', CUPSJobSemaphore := Some 7\<rparr>,
       (samplePrinter ''B'')\<lparr>GCPID := ''g2''\<rparr>] =
     Inr (Some
       [updateDiff
          ((samplePrinter ''A'')\<lparr>DefaultDisplayName := ''Lobby'', GCPID := ''g1'',
                                  CUPSJobSemaphore := Some 7\<rparr>)
          ((samplePrinter ''A'')\<lparr>GCPID := ''g1'', CUPSJobSemaphore := Some 7\<rparr>),
        newPrinterDiff NoChangeToPrinter ((samplePrinter ''B'')\<lparr>GCPID := ''g2''\<rparr>)]) \<and>
   Printer (updateDiff
          ((samplePrinter ''A'')\<lparr>DefaultDisplayName := ''Lobby'', GCPID := ''g1'',
                                  CUPSJobSemaphore := Some 7\<rparr>)
          ((samplePrinter ''A'')\<lparr>GCPID := ''g1'', CUPSJobSemaphore := Some 7\<rparr>)) =
     (samplePrinter ''A'')\<lparr>DefaultDisplayName := ''Lobby'', GCPID := ''g1'',
                             CUPSJobSemaphore := Some 7\<rparr>"
proof -
  let ?cups = "[(samplePrinter ''A'')\<lparr>DefaultDisplayName := ''Lobby''\<rparr>, samplePrinter ''B'']"
  let ?gcp = "[(samplePrinter ''A'')\<lparr>GCPID := ''g1'', CUPSJobSemaphore := Some 7\<rparr>,
       (samplePrinter ''B'')\<lparr>GCPID := ''g2''\<rparr>]"
  let ?diffs = "[updateDiff
          ((samplePrinter ''A'')\<lparr>DefaultDisplayName := ''Lobby'', GCPID := ''g1'',
                                  CUPSJobSemaphore := Some 7\<rparr>)
          ((samplePrinter ''A'')\<lparr>GCPID := ''g1'', CUPSJobSemaphore := Some 7\<rparr>),
        newPrinterDiff NoChangeToPrinter ((samplePrinter ''B'')\<lparr>GCPID := ''g2''\<rparr>)]"
  have run: "DiffPrinters ?cups ?gcp = Inr (Some ?diffs)"
    by (simp add: eval_simps newPrinterDiff_sel updateDiff_def)
  have i: "0 < length ?gcp" by simp
  have first: "Name (?gcp ! 0) \<notin> Name ` set (take 0 ?gcp)" by simp
  have local: "printerSliceToMapByName ?cups (Name (?gcp ! 0)) =
      Some ((samplePrinter ''A'')\<lparr>DefaultDisplayName := ''Lobby''\<rparr>)"
    by (simp add: samplePrinter_def printerSliceToMapByName_def)
  from DiffPrinters_matched_payload[OF run i first local] run show ?thesis
    by (simp add: updateDiff_def samplePrinter_def)
qed

subsection \<open>A snapshot against itself\<close>

lemma diffPrinter_same:
  "Tags p ''tagshash'' \<noteq> None \<Longrightarrow> diffPrinter p p = Inr (newPrinterDiff NoChangeToPrinter p)"
  by (auto simp: diffPrinter_closed stringLess_irrefl differingFields_def fieldGroups_def)

lemma gcpLoop_same:
  "\<forall>p\<in>set ps. byName (Name p) = Some p \<and> Tags p ''tagshash'' \<noteq> None \<Longrightarrow>
   distinct (map Name ps) \<Longrightarrow> Name ` set ps \<inter> seen = {} \<Longrightarrow>
   gcpLoop byName ps (ds, seen, dirty) =
     Inr (ds @ map (newPrinterDiff NoChangeToPrinter) ps, seen \<union> Name ` set ps, dirty)"
proof (induction ps arbitrary: ds seen)
  case Nil
  then show ?case by simp
next
  case (Cons p ps)
  from Cons.prems have p: "byName (Name p) = Some p" "Tags p ''tagshash'' \<noteq> None"
    "Name p \<notin> seen" by auto
  have self: "p\<lparr>GCPID := GCPID p, CUPSJobSemaphore := CUPSJobSemaphore p\<rparr> = p" by simp
  from p have rd: "remoteDiff byName seen p = Inr (newPrinterDiff NoChangeToPrinter p)"
    by (simp add: remoteDiff_def self diffPrinter_same del: Printer.update_convs)
  from Cons.prems have pre: "\<forall>q\<in>set ps. byName (Name q) = Some q \<and> Tags q ''tagshash'' \<noteq> None"
    "distinct (map Name ps)" "Name ` set ps \<inter> insert (Name p) seen = {}" by auto
  show ?case
    unfolding gcpLoop_Cons rd
    using Cons.IH[OF pre] by (simp add: newPrinterDiff_sel)
qed

lemma repeated_name:
  "\<not> distinct (map f xs) \<Longrightarrow> \<exists>i<length xs. f (xs ! i) \<in> f ` set (take i xs)"
proof (induction xs rule: rev_induct)
  case Nil
  then show ?case by simp
next
  case (snoc x xs)
  show ?case
  proof (cases "distinct (map f xs)")
    case True
    with snoc.prems have "f x \<in> f ` set xs" by auto
    then show ?thesis by (intro exI[of _ "length xs"]) simp
  next
    case False
    from snoc.IH[OF False] obtain i where i: "i < length xs" "f (xs ! i) \<in> f ` set (take i xs)"
      by blast
    then show ?thesis by (intro exI[of _ i]) (simp add: nth_append)
  qed
qed

lemma first_of_name:
  assumes "distinct (map f xs)" and "i < length xs"
  shows "f (xs ! i) \<notin> f ` set (take i xs)"
proof
  assume "f (xs ! i) \<in> f ` set (take i xs)"
  then obtain y where y: "y \<in> set (take i xs)" "f y = f (xs ! i)" by auto
  then obtain j where j: "j < length (take i xs)" "take i xs ! j = y"
    by (auto simp: in_set_conv_nth)
  with assms(2) have ji: "j < i" "xs ! j = y" by simp_all
  with y assms(2) have "map f xs ! j = map f xs ! i" by simp
  moreover from ji assms(2) have "j < length (map f xs)" "i < length (map f xs)" "j \<noteq> i"
    by simp_all
  ultimately show False using assms(1) by (metis nth_eq_iff_index_eq)
qed

lemma diffPrinter_self:
  "diffPrinter p p =
     (if Tags p ''tagshash'' = None then Inr (updateDiff p p)
      else Inr (newPrinterDiff NoChangeToPrinter p))"
  by (auto simp: diffPrinter_closed stringLess_irrefl differingFields_def fieldGroups_def)

text \<open>
  Claim C5, as the code has it. A snapshot reconciled with itself gives nil exactly
  when its names are pairwise distinct and all its printers carry the tag
  \<^verbatim>\<open>tagshash\<close>.
\<close>

theorem DiffPrinters_same_snapshot:
  "(DiffPrinters S S = Inr None) =
     (distinct (map Name S) \<and> (\<forall>p\<in>set S. Tags p ''tagshash'' \<noteq> None))"
proof
  assume a: "distinct (map Name S) \<and> (\<forall>p\<in>set S. Tags p ''tagshash'' \<noteq> None)"
  then have "\<forall>p\<in>set S. printerSliceToMapByName S (Name p) = Some p \<and> Tags p ''tagshash'' \<noteq> None"
    using printerSliceToMapByName_distinct by blast
  from gcpLoop_same[OF this, of "{}" "[]" False] a
  have "gcpLoop (printerSliceToMapByName S) S ([], {}, False) =
          Inr (map (newPrinterDiff NoChangeToPrinter) S, Name ` set S, False)" by simp
  then show "DiffPrinters S S = Inr None"
    by (simp add: DiffPrinters_def accumulateDiffs_def cupsLoop_eq)
next
  assume r: "DiffPrinters S S = Inr None"
  let ?byName = "printerSliceToMapByName S"
  from DiffPrinters_Inr[OF r] obtain new where
    g: "gcpLoop ?byName S ([], {}, False) = Inr (new, Name ` set S, False)"
    and len: "length new = length S"
    and clean: "\<forall>d\<in>set new. Operation d = NoChangeToPrinter"
    by (auto split: if_splits)
  have nth: "\<And>i. i < length S \<Longrightarrow> Operation (new ! i) = NoChangeToPrinter"
    using clean len by simp
  have d: "distinct (map Name S)"
  proof (rule ccontr)
    assume "\<not> distinct (map Name S)"
    from repeated_name[OF this] obtain i where
      i: "i < length S" "Name (S ! i) \<in> Name ` set (take i S)" by blast
    from gcpLoop_nth[OF g i(1)] i(2) have "new ! i = newPrinterDiff DeletePrinter (S ! i)"
      by (simp add: remoteDiff_def)
    with nth[OF i(1)] show False by (simp add: newPrinterDiff_sel)
  qed
  have t: "\<forall>p\<in>set S. Tags p ''tagshash'' \<noteq> None"
  proof
    fix p assume "p \<in> set S"
    then obtain i where i: "i < length S" "S ! i = p" by (auto simp: in_set_conv_nth)
    have self: "p\<lparr>GCPID := GCPID p, CUPSJobSemaphore := CUPSJobSemaphore p\<rparr> = p" by simp
    from printerSliceToMapByName_distinct[OF d \<open>p \<in> set S\<close>]
    have by_name: "?byName (Name p) = Some p" .
    from gcpLoop_nth[OF g i(1)] first_of_name[OF d i(1)] i(2) by_name
    have "diffPrinter p p = Inr (new ! i)"
      by (simp add: remoteDiff_def self del: Printer.update_convs)
    then have "Tags p ''tagshash'' = None \<Longrightarrow> new ! i = updateDiff p p"
      by (simp add: diffPrinter_self)
    then have "Tags p ''tagshash'' = None \<Longrightarrow> Operation (new ! i) = UpdatePrinter"
      by (simp add: updateDiff_def)
    with nth[OF i(1)] show "Tags p ''tagshash'' \<noteq> None" by auto
  qed
  from d t show "distinct (map Name S) \<and> (\<forall>p\<in>set S. Tags p ''tagshash'' \<noteq> None)" by simp
qed

text \<open>
  Claim C5 as it is worded fails: a single printer without the tag \<^verbatim>\<open>tagshash\<close>
  differs from itself in its tags, and of two printers with one name the second is
  deleted. In both runs the two snapshots are the same and the result is not nil.
\<close>

theorem DiffPrinters_same_snapshot_counterexample:
  "DiffPrinters [untaggedPrinter ''A''] [untaggedPrinter ''A''] =
     Inr (Some [updateDiff (untaggedPrinter ''A'') (untaggedPrinter ''A'')]) \<and>
   changedFlags (updateDiff (untaggedPrinter ''A'') (untaggedPrinter ''A'')) = [FTags] \<and>
   DiffPrinters [samplePrinter ''A'', samplePrinter ''A'']
                [samplePrinter ''A'', samplePrinter ''A''] =
     Inr (Some [newPrinterDiff NoChangeToPrinter (samplePrinter ''A''),
                newPrinterDiff DeletePrinter (samplePrinter ''A'')])"
  by (simp add: eval_simps untaggedPrinter_def newPrinterDiff_sel updateDiff_def
        changedFlags_def)

text \<open>Printers A and B, both with a tags hash, against themselves.\<close>

theorem DiffPrinters_same_snapshot_witness:
  "distinct (map Name [samplePrinter ''A'', samplePrinter ''B'']) \<and>
   DiffPrinters [samplePrinter ''A'', samplePrinter ''B'']
                [samplePrinter ''A'', samplePrinter ''B''] = Inr None"
proof -
  have d: "distinct (map Name [samplePrinter ''A'', samplePrinter ''B''])"
    by (simp add: samplePrinter_def)
  have t: "\<forall>p\<in>set [samplePrinter ''A'', samplePrinter ''B'']. Tags p ''tagshash'' \<noteq> None"
    by (simp add: samplePrinter_def)
  from DiffPrinters_same_snapshot[of "[samplePrinter ''A'', samplePrinter ''B'']"] d t
  show ?thesis by blast
qed

section \<open>Properties of the hostname\<close>

subsection \<open>Runes\<close>

lemma take_full: "take k s = v \<Longrightarrow> length v = k \<Longrightarrow> k \<le> length s"
  by (metis length_take min.cobounded1)

lemma firstRune_cases:
  assumes "firstRune s = Some (f, n)"
  obtains "take 3 s = kelvinSign" "f = CHR ''k''" "n = 3"
    | "take 3 s \<noteq> kelvinSign" "take 2 s = longS" "f = CHR ''s''" "n = 2"
    | "take 3 s \<noteq> kelvinSign" "take 2 s \<noteq> longS" "s \<noteq> []" "f = toLower (hd s)" "n = 1"
  using assms unfolding firstRune_def by (simp split: if_splits)

lemma firstRune_bounds: "firstRune s = Some (f, n) \<Longrightarrow> 0 < n \<and> n \<le> length s"
proof (erule firstRune_cases)
  assume "take 3 s = kelvinSign" "n = 3"
  then show ?thesis using take_full[of 3 s kelvinSign] by (simp add: kelvinSign_def)
next
  assume "take 2 s = longS" "n = 2"
  then show ?thesis using take_full[of 2 s longS] by (simp add: longS_def)
next
  assume "s \<noteq> []" "n = 1"
  then show ?thesis by (cases s) simp_all
qed

lemmas rune_defs = firstRune_def toLower_def upperLetters_def lowerLetters_def
  kelvinSign_def longS_def hostChars_def

lemma firstRune_Nil: "firstRune [] = None"
  by (simp add: firstRune_def)

lemma firstRune_None: "(firstRune s = None) = (s = [])"
  by (simp add: firstRune_def)

lemma toLower_E2: "toLower (CHR 0xE2) = CHR 0xE2" "toLower (CHR 0xC5) = CHR 0xC5"
  by (simp_all add: toLower_def upperLetters_def lowerLetters_def)

lemma firstRune_take:
  assumes "firstRune s = Some (f, n)"
  shows "firstRune (take n s) = Some (f, n)"
  using assms
proof (rule firstRune_cases)
  assume a: "take 3 s = kelvinSign" "f = CHR ''k''" "n = 3"
  then show ?thesis by (simp add: firstRune_def kelvinSign_def)
next
  assume a: "take 3 s \<noteq> kelvinSign" "take 2 s = longS" "f = CHR ''s''" "n = 2"
  then show ?thesis by (simp add: firstRune_def kelvinSign_def longS_def)
next
  assume a: "take 3 s \<noteq> kelvinSign" "take 2 s \<noteq> longS" "s \<noteq> []" "f = toLower (hd s)" "n = 1"
  then obtain x xs where "s = x # xs" by (cases s) auto
  with a show ?thesis by (simp add: firstRune_def kelvinSign_def longS_def)
qed

lemma firstRune_append:
  assumes "firstRune s = Some (f, n)" and "asciiFold f"
  shows "firstRune (s @ t) = Some (f, n)"
  using assms(1)
proof (rule firstRune_cases)
  assume a: "take 3 s = kelvinSign" "f = CHR ''k''" "n = 3"
  from take_full[OF a(1)] have l: "3 \<le> length s" by (simp add: kelvinSign_def)
  then have "s \<noteq> []" by auto
  with a l show ?thesis by (simp add: firstRune_def)
next
  assume a: "take 3 s \<noteq> kelvinSign" "take 2 s = longS" "f = CHR ''s''" "n = 2"
  from take_full[OF a(2)] have l: "2 \<le> length s" by (simp add: longS_def)
  then obtain x y r where s: "s = x # y # r" by (cases s; cases "tl s") auto
  with a show ?thesis by (simp add: firstRune_def kelvinSign_def longS_def)
next
  assume a: "take 3 s \<noteq> kelvinSign" "take 2 s \<noteq> longS" "s \<noteq> []" "f = toLower (hd s)" "n = 1"
  then obtain x xs where s: "s = x # xs" by (cases s) auto
  from a s assms(2) have "x \<noteq> CHR 0xE2" "x \<noteq> CHR 0xC5"
    using toLower_E2 by (auto simp: asciiFold_def)
  with a s show ?thesis by (simp add: firstRune_def kelvinSign_def longS_def)
qed

lemma foldCase_Nil: "foldCase [] = []"
  by (simp add: foldCase.simps firstRune_Nil)

lemma foldCase_rune:
  "firstRune s = Some (f, n) \<Longrightarrow> foldCase s = f # foldCase (drop n s)"
  by (subst foldCase.simps) simp

lemma foldCase_eq_Nil: "(foldCase s = []) = (s = [])"
  by (subst foldCase.simps) (auto simp: firstRune_None firstRune_Nil split: option.splits)

lemma foldCase_eq_Cons:
  "foldCase s = c # cs \<Longrightarrow> \<exists>n. firstRune s = Some (c, n) \<and> foldCase (drop n s) = cs"
  by (subst (asm) foldCase.simps) (auto split: option.splits)

lemma matchLiteral_complete:
  "foldCase pre = pat \<Longrightarrow> \<forall>c\<in>set pat. asciiFold c \<Longrightarrow> matchLiteral pat (pre @ t) = Some t"
proof (induction pat arbitrary: pre)
  case Nil
  then show ?case by (simp add: foldCase_eq_Nil)
next
  case (Cons c cs)
  from foldCase_eq_Cons[OF Cons.prems(1)] obtain n where
    n: "firstRune pre = Some (c, n)" "foldCase (drop n pre) = cs" by blast
  from Cons.prems(2) have c: "asciiFold c" and cs: "\<forall>c\<in>set cs. asciiFold c" by auto
  from firstRune_bounds[OF n(1)] have le: "n \<le> length pre" by simp
  from firstRune_append[OF n(1) c] have "firstRune (pre @ t) = Some (c, n)" .
  with Cons.IH[OF n(2) cs] le show ?case by simp
qed

lemma matchLiteral_sound:
  "matchLiteral pat s = Some rest \<Longrightarrow> \<forall>c\<in>set pat. asciiFold c \<Longrightarrow>
     \<exists>pre. s = pre @ rest \<and> foldCase pre = pat"
proof (induction pat arbitrary: s)
  case Nil
  then show ?case by (simp add: foldCase_Nil)
next
  case (Cons c cs)
  from Cons.prems(1) obtain n where n: "firstRune s = Some (c, n)"
    and m: "matchLiteral cs (drop n s) = Some rest"
    by (auto split: option.splits if_splits)
  from Cons.prems(2) have c: "asciiFold c" and cs: "\<forall>c\<in>set cs. asciiFold c" by auto
  from Cons.IH[OF m cs] obtain pre where pre: "drop n s = pre @ rest" "foldCase pre = cs" by blast
  from firstRune_bounds[OF n] have le: "n \<le> length s" by simp
  from firstRune_append[OF firstRune_take[OF n] c]
  have "firstRune (take n s @ pre) = Some (c, n)" .
  from foldCase_rune[OF this] le pre(2) have "foldCase (take n s @ pre) = c # cs" by simp
  moreover have "s = (take n s @ pre) @ rest" using pre(1) by (metis append.assoc append_take_drop_id)
  ultimately show ?case by blast
qed

lemma matchLiteral_append:
  "matchLiteral (p @ q) s =
     (case matchLiteral p s of None \<Rightarrow> None | Some t \<Rightarrow> matchLiteral q t)"
  by (induction p arbitrary: s) (auto split: option.splits)

lemma matchLiteral_prefix:
  "matchLiteral p1 s = Some r1 \<Longrightarrow> matchLiteral p2 s = Some r2 \<Longrightarrow>
     (\<exists>q. p2 = p1 @ q \<and> matchLiteral q r1 = Some r2) \<or>
     (\<exists>q. p1 = p2 @ q \<and> matchLiteral q r2 = Some r1)"
proof (induction p1 arbitrary: p2 s)
  case Nil
  then show ?case by simp
next
  case (Cons c cs)
  show ?case
  proof (cases p2)
    case Nil
    with Cons.prems show ?thesis by auto
  next
    case (Cons d ds)
    from Cons.prems(1) obtain n where n: "firstRune s = Some (c, n)"
      and m1: "matchLiteral cs (drop n s) = Some r1"
      by (auto split: option.splits if_splits)
    from Cons.prems(2) Cons n have d: "d = c" and m2: "matchLiteral ds (drop n s) = Some r2"
      by (auto split: option.splits if_splits)
    from Cons.IH[OF m1 m2] Cons d show ?thesis by auto
  qed
qed

lemma scheme_unique:
  "sch \<in> set schemes \<Longrightarrow> sch' \<in> set schemes \<Longrightarrow> sch @ ''://'' = (sch' @ ''://'') @ q \<Longrightarrow> q = []"
  by (auto simp: schemes_def)

lemma matchLiteral_scheme_unique:
  assumes "sch \<in> set schemes" "sch' \<in> set schemes"
    and "matchLiteral (sch @ ''://'') s = Some r" "matchLiteral (sch' @ ''://'') s = Some r'"
  shows "r = r'"
proof -
  from matchLiteral_prefix[OF assms(3,4)] show ?thesis
  proof
    assume "\<exists>q. sch' @ ''://'' = (sch @ ''://'') @ q \<and> matchLiteral q r = Some r'"
    then obtain q where q: "sch' @ ''://'' = (sch @ ''://'') @ q" "matchLiteral q r = Some r'" by blast
    from scheme_unique[OF assms(2,1) q(1)] q(2) show ?thesis by simp
  next
    assume "\<exists>q. sch @ ''://'' = (sch' @ ''://'') @ q \<and> matchLiteral q r' = Some r"
    then obtain q where q: "sch @ ''://'' = (sch' @ ''://'') @ q" "matchLiteral q r' = Some r" by blast
    from scheme_unique[OF assms(1,2) q(1)] q(2) show ?thesis by simp
  qed
qed

lemma foldCase_take_rune:
  assumes "firstRune s = Some (f, n)" and "asciiFold f"
  shows "foldCase (take n s @ t) = f # foldCase t"
proof -
  from firstRune_bounds[OF assms(1)] have le: "n \<le> length s" by simp
  from firstRune_append[OF firstRune_take[OF assms(1)] assms(2)]
  have "firstRune (take n s @ t) = Some (f, n)" .
  from foldCase_rune[OF this] le show ?thesis by simp
qed

lemma matchStar_sound:
  "\<forall>c\<in>set cls. asciiFold c \<Longrightarrow>
     \<exists>rest. s = matchStar cls s @ rest \<and> set (foldCase (matchStar cls s)) \<subseteq> set cls \<and>
       (\<forall>f n. firstRune rest = Some (f, n) \<longrightarrow> f \<notin> set cls)"
proof (induction cls s rule: matchStar.induct)
  case (1 cls s)
  show ?case
  proof (cases "firstRune s")
    case None
    then have "s = []" by (simp add: firstRune_None)
    then show ?thesis
      by (subst (1 2) matchStar.simps) (simp add: firstRune_Nil foldCase_Nil)
  next
    case (Some a)
    obtain f n where a: "a = (f, n)" by (cases a)
    show ?thesis
    proof (cases "f \<in> set cls")
      case False
      have "matchStar cls s = []" by (subst matchStar.simps) (simp add: Some a False)
      with Some a False show ?thesis by (simp add: foldCase_Nil)
    next
      case True
      from "1.IH"[OF Some a[symmetric] True "1.prems"] obtain rest where
        h: "drop n s = matchStar cls (drop n s) @ rest"
           "set (foldCase (matchStar cls (drop n s))) \<subseteq> set cls"
           "\<forall>f n. firstRune rest = Some (f, n) \<longrightarrow> f \<notin> set cls" by blast
      from Some a have fr: "firstRune s = Some (f, n)" by simp
      from True "1.prems" have af: "asciiFold f" by simp
      have m: "matchStar cls s = take n s @ matchStar cls (drop n s)"
        by (subst matchStar.simps) (simp add: Some a True)
      have s: "s = matchStar cls s @ rest"
        unfolding m using h(1) by (metis append.assoc append_take_drop_id)
      moreover have "set (foldCase (matchStar cls s)) \<subseteq> set cls"
        unfolding m using foldCase_take_rune[OF fr af] h(2) True by simp
      ultimately show ?thesis using h(3) by blast
    qed
  qed
qed

lemma matchStar_complete:
  "set (foldCase h) \<subseteq> set cls \<Longrightarrow> \<forall>f n. firstRune rest = Some (f, n) \<longrightarrow> f \<notin> set cls \<Longrightarrow>
   \<forall>c\<in>set cls. asciiFold c \<Longrightarrow> matchStar cls (h @ rest) = h"
proof (induction "length h" arbitrary: h rule: less_induct)
  case less
  show ?case
  proof (cases "h = []")
    case True
    with less.prems(2) show ?thesis
      by (subst matchStar.simps) (auto split: option.splits)
  next
    case False
    then obtain f n where fr: "firstRune h = Some (f, n)"
      using firstRune_None[of h] by (cases "firstRune h") auto
    from foldCase_rune[OF fr] less.prems(1) have f: "f \<in> set cls"
      and sub: "set (foldCase (drop n h)) \<subseteq> set cls" by auto
    from f less.prems(3) have af: "asciiFold f" by simp
    from firstRune_bounds[OF fr] have n: "0 < n" "n \<le> length h" by simp_all
    then have "length (drop n h) < length h" by simp
    from less.hyps[OF this sub less.prems(2,3)]
    have ih: "matchStar cls (drop n h @ rest) = drop n h" .
    from firstRune_append[OF fr af] have "firstRune (h @ rest) = Some (f, n)" .
    then have "matchStar cls (h @ rest) = take n (h @ rest) @ matchStar cls (drop n (h @ rest))"
      by (subst matchStar.simps) (simp add: f)
    with ih n show ?thesis by simp
  qed
qed

lemma ascii_classes:
  "\<forall>c\<in>set hostChars. asciiFold c" "\<forall>c\<in>set lowerLetters. asciiFold c"
  by (simp_all add: hostChars_def lowerLetters_def asciiFold_def)

lemma hostGroup_iff:
  "(hostGroup s = Some h) = (\<exists>rest. s = h @ rest \<and> isHostname h \<and> noHostRune rest)"
proof
  assume a: "hostGroup s = Some h"
  then obtain f n where fr: "firstRune s = Some (f, n)" and f: "f \<in> set lowerLetters"
    and h: "h = take n s @ matchStar hostChars (drop n s)"
    by (auto simp: hostGroup_def split: option.splits if_splits)
  from matchStar_sound[OF ascii_classes(1), of "drop n s"] obtain rest where
    r: "drop n s = matchStar hostChars (drop n s) @ rest"
       "set (foldCase (matchStar hostChars (drop n s))) \<subseteq> set hostChars" "noHostRune rest"
    unfolding noHostRune_def by blast
  have s: "s = h @ rest" unfolding h using r(1) by (metis append.assoc append_take_drop_id)
  from f ascii_classes(2) have af: "asciiFold f" by simp
  from foldCase_take_rune[OF fr af]
  have "foldCase h = f # foldCase (matchStar hostChars (drop n s))" unfolding h .
  with f r(2) have "isHostname h" unfolding isHostname_def by blast
  with s r(3) show "\<exists>rest. s = h @ rest \<and> isHostname h \<and> noHostRune rest" by blast
next
  assume "\<exists>rest. s = h @ rest \<and> isHostname h \<and> noHostRune rest"
  then obtain rest c cs where s: "s = h @ rest" and fc: "foldCase h = c # cs"
    and c: "c \<in> set lowerLetters" and cs: "set cs \<subseteq> set hostChars" and nr: "noHostRune rest"
    unfolding isHostname_def by blast
  from foldCase_eq_Cons[OF fc] obtain n where
    fr: "firstRune h = Some (c, n)" and tl: "foldCase (drop n h) = cs" by blast
  from c ascii_classes(2) have af: "asciiFold c" by simp
  from firstRune_bounds[OF fr] have le: "n \<le> length h" by simp
  from firstRune_append[OF fr af] have fr': "firstRune s = Some (c, n)" unfolding s .
  from cs tl have "set (foldCase (drop n h)) \<subseteq> set hostChars" by simp
  from matchStar_complete[OF this _ ascii_classes(1), of rest] nr
  have "matchStar hostChars (drop n h @ rest) = drop n h" unfolding noHostRune_def by blast
  with le have "matchStar hostChars (drop n s) = drop n h" unfolding s by simp
  with fr' c le show "hostGroup s = Some h" by (simp add: hostGroup_def s)
qed

lemma scheme_ascii: "sch \<in> set schemes \<Longrightarrow> \<forall>c\<in>set (sch @ ''://''). asciiFold c"
  by (auto simp: schemes_def asciiFold_def)

lemma hostnameIn_iff:
  "hostnameIn uri h =
     (\<exists>sch\<in>set schemes. \<exists>t. matchLiteral (sch @ ''://'') uri = Some t \<and> hostGroup t = Some h)"
proof
  assume "hostnameIn uri h"
  then obtain pre rest sch where u: "uri = pre @ h @ rest" and sch: "sch \<in> set schemes"
    and pre: "foldCase pre = sch @ ''://''" and h: "isHostname h" "noHostRune rest"
    unfolding hostnameIn_def by blast
  from matchLiteral_complete[OF pre scheme_ascii[OF sch], of "h @ rest"]
  have "matchLiteral (sch @ ''://'') uri = Some (h @ rest)" unfolding u .
  moreover from h have "hostGroup (h @ rest) = Some h" unfolding hostGroup_iff by blast
  ultimately show "\<exists>sch\<in>set schemes. \<exists>t. matchLiteral (sch @ ''://'') uri = Some t \<and> hostGroup t = Some h"
    using sch by blast
next
  assume "\<exists>sch\<in>set schemes. \<exists>t. matchLiteral (sch @ ''://'') uri = Some t \<and> hostGroup t = Some h"
  then obtain sch t where sch: "sch \<in> set schemes"
    and m: "matchLiteral (sch @ ''://'') uri = Some t" and g: "hostGroup t = Some h" by blast
  from matchLiteral_sound[OF m scheme_ascii[OF sch]] obtain pre where
    pre: "uri = pre @ t" "foldCase pre = sch @ ''://''" by blast
  from g obtain rest where "t = h @ rest" "isHostname h" "noHostRune rest"
    unfolding hostGroup_iff by blast
  with pre sch show "hostnameIn uri h" unfolding hostnameIn_def by blast
qed

lemma firstAlternative_sound:
  "firstAlternative schs s = Some (m, h) \<Longrightarrow>
     \<exists>sch\<in>set schs. \<exists>t. matchLiteral (sch @ ''://'') s = Some t \<and> hostGroup t = Some h"
  by (induction schs) (auto split: option.splits)

lemma firstAlternative_complete:
  "set schs \<subseteq> set schemes \<Longrightarrow> sch \<in> set schs \<Longrightarrow>
   matchLiteral (sch @ ''://'') s = Some t \<Longrightarrow> hostGroup t = Some h \<Longrightarrow>
     \<exists>m. firstAlternative schs s = Some (m, h)"
proof (induction schs)
  case Nil
  then show ?case by simp
next
  case (Cons a schs)
  show ?case
  proof (cases "matchLiteral (a @ ''://'') s")
    case None
    with Cons.prems have "sch \<in> set schs" by auto
    with Cons.IH Cons.prems None show ?thesis by simp
  next
    case (Some t')
    from Cons.prems have "a \<in> set schemes" "sch \<in> set schemes" by auto
    from matchLiteral_scheme_unique[OF this Some Cons.prems(3)] have "t' = t" .
    with Some Cons.prems(4) show ?thesis by simp
  qed
qed

lemma firstAlternative_None:
  "(firstAlternative schemes uri = None) = (\<forall>h. \<not> hostnameIn uri h)"
proof
  assume n: "firstAlternative schemes uri = None"
  show "\<forall>h. \<not> hostnameIn uri h"
  proof (intro allI notI)
    fix h assume "hostnameIn uri h"
    then obtain sch t where "sch \<in> set schemes" "matchLiteral (sch @ ''://'') uri = Some t"
      "hostGroup t = Some h" unfolding hostnameIn_iff by blast
    from firstAlternative_complete[OF subset_refl this] n show False by simp
  qed
next
  assume a: "\<forall>h. \<not> hostnameIn uri h"
  show "firstAlternative schemes uri = None"
  proof (cases "firstAlternative schemes uri")
    case None
    then show ?thesis .
  next
    case (Some r)
    obtain m h where "r = (m, h)" by (cases r)
    with Some firstAlternative_sound[of schemes uri m h] a show ?thesis
      unfolding hostnameIn_iff by blast
  qed
qed

lemma FindStringSubmatch_spec:
  "(\<exists>m. FindStringSubmatch uri = [m, h]) = hostnameIn uri h"
  "(\<forall>h. \<not> hostnameIn uri h) \<Longrightarrow> FindStringSubmatch uri = []"
proof -
  show "(\<exists>m. FindStringSubmatch uri = [m, h]) = hostnameIn uri h"
  proof
    assume "\<exists>m. FindStringSubmatch uri = [m, h]"
    then obtain m where "firstAlternative schemes uri = Some (m, h)"
      by (auto simp: FindStringSubmatch_def split: option.splits)
    from firstAlternative_sound[OF this] show "hostnameIn uri h" unfolding hostnameIn_iff .
  next
    assume "hostnameIn uri h"
    then obtain sch t where "sch \<in> set schemes" "matchLiteral (sch @ ''://'') uri = Some t"
      "hostGroup t = Some h" unfolding hostnameIn_iff by blast
    from firstAlternative_complete[OF subset_refl this]
    show "\<exists>m. FindStringSubmatch uri = [m, h]" by (auto simp: FindStringSubmatch_def)
  qed
  show "(\<forall>h. \<not> hostnameIn uri h) \<Longrightarrow> FindStringSubmatch uri = []"
    by (simp add: FindStringSubmatch_def firstAlternative_None[symmetric])
qed

text \<open>The equations that evaluate \<open>GetHostname\<close> on a given locator.\<close>

lemmas host_eval = rune_defs schemes_def hostGroup_def FindStringSubmatch_def
  matchStar.simps GetHostname_def samplePrinter_def

subsection \<open>The hostname found\<close>

text \<open>
  Claim C9, as the code has it. \<open>GetHostname\<close> returns the name \<open>h\<close> (and true)
  exactly when the printer has the tag \<^verbatim>\<open>device-uri\<close> and its value begins, letter
  case ignored, with one of the schemes socket, http, https, ipp, ipps, lpd followed by
  \<^verbatim>\<open>://\<close> and a letter, \<open>h\<close> being that letter with the longest run of letters,
  digits, dots and hyphens after it. When the tag is absent or its value does not
  begin so, the function returns the empty string and false.
\<close>

theorem GetHostname_spec:
  "(GetHostname p = (h, True)) =
     (\<exists>uri. Tags p ''device-uri'' = Some uri \<and> hostnameIn uri h) \<and>
   (\<not> (\<exists>uri h'. Tags p ''device-uri'' = Some uri \<and> hostnameIn uri h') \<longrightarrow>
      GetHostname p = ([], False))"
proof (cases "Tags p ''device-uri''")
  case None
  then show ?thesis by (simp add: GetHostname_def)
next
  case (Some uri)
  show ?thesis
  proof (cases "firstAlternative schemes uri")
    case None
    then have "\<forall>h. \<not> hostnameIn uri h" by (simp add: firstAlternative_None)
    with None Some show ?thesis by (simp add: GetHostname_def FindStringSubmatch_def)
  next
    case (Some r)
    obtain m g where r: "r = (m, g)" by (cases r)
    with Some have f: "FindStringSubmatch uri = [m, g]" by (simp add: FindStringSubmatch_def)
    then have g: "hostnameIn uri g" using FindStringSubmatch_spec(1)[of uri g] by blast
    have "hostnameIn uri h \<Longrightarrow> h = g"
      using FindStringSubmatch_spec(1)[of uri h] f by auto
    with g f \<open>Tags p ''device-uri'' = Some uri\<close> show ?thesis
      by (auto simp: GetHostname_def)
  qed
qed

text \<open>
  The specification's examples: the locator \<^verbatim>\<open>ipp://printer.local:631/ipp/print\<close>
  gives \<^verbatim>\<open>printer.local\<close>, the locator \<^verbatim>\<open>usb://Vendor/Model\<close> and a printer
  without the tag give not found.
\<close>

theorem GetHostname_spec_witness:
  "GetHostname (locatorPrinter ''ipp://printer.local:631/ipp/print'') =
     (''printer.local'', True) \<and>
   hostnameIn ''ipp://printer.local:631/ipp/print'' ''printer.local'' \<and>
   GetHostname (locatorPrinter ''usb://Vendor/Model'') = ([], False) \<and>
   \<not> hostnameIn ''usb://Vendor/Model'' ''Vendor'' \<and>
   GetHostname (samplePrinter ''A'') = ([], False)"
proof -
  let ?ipp = "locatorPrinter ''ipp://printer.local:631/ipp/print''"
  let ?usb = "locatorPrinter ''usb://Vendor/Model''"
  have a: "GetHostname ?ipp = (''printer.local'', True)"
    by (simp add: host_eval locatorPrinter_def)
  have b: "GetHostname ?usb = ([], False)" by (simp add: host_eval locatorPrinter_def)
  have c: "GetHostname (samplePrinter ''A'') = ([], False)" by (simp add: host_eval)
  from GetHostname_spec[of ?ipp "''printer.local''"] a
  have a': "hostnameIn ''ipp://printer.local:631/ipp/print'' ''printer.local''"
    by (simp add: samplePrinter_def locatorPrinter_def)
  from GetHostname_spec[of ?usb "''Vendor''"] b
  have b': "\<not> hostnameIn ''usb://Vendor/Model'' ''Vendor''"
    by (simp add: samplePrinter_def locatorPrinter_def)
  from a a' b b' c show ?thesis by simp
qed

text \<open>
  Claim C9 as it is worded fails: a locator of an accepted scheme whose host is a
  numeric address gives not found, since the name must begin with a letter; and what
  is returned for a host with an underscore is only the part before the underscore,
  not the locator's host.
\<close>

theorem GetHostname_spec_counterexample:
  "Tags (locatorPrinter ''ipp://192.168.1.5/ipp/print'') ''device-uri'' =
     Some ''ipp://192.168.1.5/ipp/print'' \<and>
   GetHostname (locatorPrinter ''ipp://192.168.1.5/ipp/print'') = ([], False) \<and>
   GetHostname (locatorPrinter ''http://my_printer.example.com:631/'') = (''my'', True)"
  by (simp add: host_eval locatorPrinter_def)

section \<open>Properties of the PPD cache\<close>

subsection \<open>A refresh\<close>

lemma refresh_failed:
  "refresh env pce r = (Some e, pce', r') \<Longrightarrow>
     description pce' = description pce \<and> manufacturer pce' = manufacturer pce \<and>
     model pce' = model pce \<and> printername pce' = printername pce \<and>
     filename pce' = filename pce \<and>
     modtime pce' = snd (getPPD env (cStrings r (printername pce)) (modtime pce))"
  unfolding refresh_def
  by (auto simp: Let_def split: prod.splits sum.splits option.splits if_splits)

lemma refresh_succeeded:
  "refresh env pce r = (None, pce', r') \<Longrightarrow>
     printername pce' = printername pce \<and> filename pce' = filename pce \<and>
     ((complete pce' \<and>
       (\<exists>content. translatePPD env content =
          (Some (description pce'), manufacturer pce', model pce'))) \<or>
      (fst (getPPD env (cStrings r (printername pce)) (modtime pce)) = Inr None \<and>
       description pce' = description pce \<and> manufacturer pce' = manufacturer pce \<and>
       model pce' = model pce))"
  unfolding refresh_def
  by (auto simp: Let_def complete_def split: prod.splits sum.splits option.splits if_splits)

lemma refresh_resources:
  "refresh env pce r = (x, pce', r') \<Longrightarrow>
     cStrings r' = cStrings r \<and> dom (tempFiles r') = dom (tempFiles r)"
  unfolding refresh_def
  by (auto simp: Let_def split: prod.splits sum.splits option.splits if_splits)

subsection \<open>A lookup\<close>

lemma createPPDCacheEntry_Inl:
  "createPPDCacheEntry env name r = (Inl e, r') \<Longrightarrow> r' = r"
  by (auto simp: createPPDCacheEntry_def Let_def split: sum.splits)

lemma createPPDCacheEntry_Inr:
  "createPPDCacheEntry env name r = (Inr pce, r') \<Longrightarrow>
     modtime pce = 0 \<and>
     dom (tempFiles r') = insert (filename pce) (dom (tempFiles r)) \<and>
     dom (cStrings r') = insert (printername pce) (dom (cStrings r))"
  by (auto simp: createPPDCacheEntry_def Let_def split: sum.splits)

lemma free_resources:
  "dom (tempFiles (free pce r)) = dom (tempFiles r) - {filename pce}"
  "dom (cStrings (free pce r)) = dom (cStrings r) - {printername pce}"
  "tempFiles (free pce r) (filename pce) = None"
  "cStrings (free pce r) (printername pce) = None"
  by (auto simp: free_def)

lemma cacheComplete_upd:
  "cacheComplete c \<Longrightarrow> complete pce \<Longrightarrow> cacheComplete (c(n \<mapsto> pce))"
  by (simp add: cacheComplete_def)

lemma lookup_new:
  assumes none: "cache pc name = None" and zero: "changedAtZero env"
    and inv: "cacheComplete (cache pc)"
    and run: "getPPDCacheEntry env name pc = (res, pc')"
  shows "(\<forall>t. res = Inr t \<longrightarrow>
            (\<exists>pce. complete pce \<and> t = getFields pce \<and> cache pc' name = Some pce) \<and>
            cacheComplete (cache pc') \<and>
            (\<exists>content d mf md. translatePPD env content = (Some d, mf, md) \<and> t = (d, mf, md))) \<and>
         (\<forall>e. res = Inl e \<longrightarrow>
            cache pc' = cache pc \<and>
            dom (tempFiles (held pc')) \<subseteq> dom (tempFiles (held pc)) \<and>
            dom (cStrings (held pc')) \<subseteq> dom (cStrings (held pc)))"
proof (cases "createPPDCacheEntry env name (held pc)")
  case (Pair c r)
  show ?thesis
  proof (cases c)
    case (Inl e)
    with Pair createPPDCacheEntry_Inl[of env name "held pc" e r] run none show ?thesis
      by (auto simp: getPPDCacheEntry_def)
  next
    case (Inr pce)
    from Pair Inr have cr: "createPPDCacheEntry env name (held pc) = (Inr pce, r)" by simp
    note c = createPPDCacheEntry_Inr[OF cr]
    obtain x pce' r' where rf: "refresh env pce r = (x, pce', r')" by (cases "refresh env pce r")
    note rr = refresh_resources[OF rf]
    show ?thesis
    proof (cases x)
      case None
      from refresh_succeeded[OF rf[unfolded None]] c zero have cp: "complete pce'"
        and tr: "\<exists>content. translatePPD env content =
                  (Some (description pce'), manufacturer pce', model pce')"
        by (auto simp: changedAtZero_def)
      from run none cr rf None have res: "res = Inr (getFields pce')"
        and pc': "cache pc' = (cache pc)(name \<mapsto> pce')"
        by (auto simp: getPPDCacheEntry_def Let_def)
      from tr have "\<exists>content d mf md. translatePPD env content = (Some d, mf, md) \<and>
          getFields pce' = (d, mf, md)"
        by (auto simp: getFields_def)
      with cacheComplete_upd[OF inv cp] pc' cp res show ?thesis by auto
    next
      case (Some e)
      from refresh_failed[OF rf[unfolded Some]] have same:
        "printername pce' = printername pce" "filename pce' = filename pce" by simp_all
      from run none cr rf Some have res: "res = Inl e"
        and pc': "cache pc' = cache pc" "held pc' = free pce' r'"
        by (auto simp: getPPDCacheEntry_def)
      from c rr same have "dom (tempFiles (free pce' r')) \<subseteq> dom (tempFiles (held pc))"
        "dom (cStrings (free pce' r')) \<subseteq> dom (cStrings (held pc))"
        by (auto simp: free_resources)
      with res pc' show ?thesis by simp
    qed
  qed
qed

lemma lookup_cached:
  assumes some: "cache pc name = Some pce" and inv: "cacheComplete (cache pc)"
    and run: "getPPDCacheEntry env name pc = (res, pc')"
  shows "(\<forall>t. res = Inr t \<longrightarrow>
            (\<exists>pce. complete pce \<and> t = getFields pce \<and> cache pc' name = Some pce) \<and>
            cacheComplete (cache pc') \<and>
            ((\<exists>content d mf md. translatePPD env content = (Some d, mf, md) \<and> t = (d, mf, md)) \<or>
             t = getFields pce)) \<and>
         (\<forall>e. res = Inl e \<longrightarrow>
            cache pc' = (cache pc)(name := None) \<and>
            dom (tempFiles (held pc')) \<subseteq> dom (tempFiles (held pc)) \<and>
            dom (cStrings (held pc')) \<subseteq> dom (cStrings (held pc)) \<and>
            tempFiles (held pc') (filename pce) = None \<and>
            cStrings (held pc') (printername pce) = None)"
proof -
  obtain x pce' r' where rf: "refresh env pce (held pc) = (x, pce', r')"
    by (cases "refresh env pce (held pc)")
  note rr = refresh_resources[OF rf]
  from inv some have cp0: "complete pce" by (simp add: cacheComplete_def)
  show ?thesis
  proof (cases x)
    case None
    from refresh_succeeded[OF rf[unfolded None]] cp0 have cp: "complete pce'"
      and tr: "(\<exists>content. translatePPD env content =
                  (Some (description pce'), manufacturer pce', model pce')) \<or>
               getFields pce' = getFields pce"
      by (auto simp: complete_def getFields_def)
    from run some rf None have res: "res = Inr (getFields pce')"
      and pc': "cache pc' = (cache pc)(name \<mapsto> pce')"
      by (auto simp: getPPDCacheEntry_def)
    from tr have "(\<exists>content d mf md. translatePPD env content = (Some d, mf, md) \<and>
          getFields pce' = (d, mf, md)) \<or> getFields pce' = getFields pce"
      by (auto simp: getFields_def)
    with cacheComplete_upd[OF inv cp] pc' cp res show ?thesis by auto
  next
    case (Some e)
    from refresh_failed[OF rf[unfolded Some]] have same:
      "printername pce' = printername pce" "filename pce' = filename pce" by simp_all
    from run some rf Some have res: "res = Inl e"
      and pc': "cache pc' = (cache pc)(name := None)" "held pc' = free pce' r'"
      by (auto simp: getPPDCacheEntry_def)
    from rr same have "dom (tempFiles (free pce' r')) \<subseteq> dom (tempFiles (held pc))"
      "dom (cStrings (free pce' r')) \<subseteq> dom (cStrings (held pc))"
      "tempFiles (free pce' r') (filename pce) = None"
      "cStrings (free pce' r') (printername pce) = None"
      using free_resources[of pce' r'] by auto
    with res pc' show ?thesis by simp
  qed
qed

text \<open>
  Claim C8, as the code has it. Take a cache whose entries all hold a manufacturer
  and a model, and a print system that never answers ``unchanged'' to the zero stamp
  of a new entry. A lookup that succeeds returns a triple whose manufacturer and
  model are non-empty and which is either what the translator has returned, the
  description through a pointer that is not nil, or the triple the entry cached
  under the name held already; the entry now cached under the name holds it, and the
  cache is again one of such entries. A lookup that fails leaves the cache without an
  entry for the name and
  otherwise as it was, holds no file and no C string that was not held before, and
  holds neither the file nor the C string of the entry it has removed. A refresh that
  fails leaves the entry's triple as it was.
\<close>

theorem getPPDCacheEntry_outcome:
  assumes "cacheComplete (cache pc)" and "changedAtZero env"
  shows "(getPPDCacheEntry env name pc = (Inr (d, mf, md), pc') \<longrightarrow>
            mf \<noteq> [] \<and> md \<noteq> [] \<and>
            ((\<exists>content. translatePPD env content = (Some d, mf, md)) \<or>
             (\<exists>pce. cache pc name = Some pce \<and> getFields pce = (d, mf, md))) \<and>
            cacheComplete (cache pc') \<and>
            (\<exists>pce. cache pc' name = Some pce \<and> getFields pce = (d, mf, md))) \<and>
         (getPPDCacheEntry env name pc = (Inl e, pc') \<longrightarrow>
            cache pc' = (cache pc)(name := None) \<and> cacheComplete (cache pc') \<and>
            dom (tempFiles (held pc')) \<subseteq> dom (tempFiles (held pc)) \<and>
            dom (cStrings (held pc')) \<subseteq> dom (cStrings (held pc)) \<and>
            (\<forall>pce. cache pc name = Some pce \<longrightarrow>
               tempFiles (held pc') (filename pce) = None \<and>
               cStrings (held pc') (printername pce) = None)) \<and>
         (refresh env entry r = (Some e', entry', r') \<longrightarrow> getFields entry' = getFields entry)"
proof (intro conjI impI)
  assume run: "getPPDCacheEntry env name pc = (Inr (d, mf, md), pc')"
  have "(\<exists>pce. complete pce \<and> (d, mf, md) = getFields pce \<and> cache pc' name = Some pce) \<and>
        cacheComplete (cache pc') \<and>
        ((\<exists>content. translatePPD env content = (Some d, mf, md)) \<or>
         (\<exists>pce. cache pc name = Some pce \<and> getFields pce = (d, mf, md)))"
  proof (cases "cache pc name")
    case None
    from lookup_new[OF None assms(2,1) run] show ?thesis by auto
  next
    case (Some pce)
    from lookup_cached[OF Some assms(1) run] Some show ?thesis by auto
  qed
  then show "mf \<noteq> []" "md \<noteq> []" "cacheComplete (cache pc')"
    "\<exists>pce. cache pc' name = Some pce \<and> getFields pce = (d, mf, md)"
    "(\<exists>content. translatePPD env content = (Some d, mf, md)) \<or>
     (\<exists>pce. cache pc name = Some pce \<and> getFields pce = (d, mf, md))"
    by (auto simp: complete_def getFields_def)
next
  assume run: "getPPDCacheEntry env name pc = (Inl e, pc')"
  show "cache pc' = (cache pc)(name := None)" "cacheComplete (cache pc')"
    "dom (tempFiles (held pc')) \<subseteq> dom (tempFiles (held pc))"
    "dom (cStrings (held pc')) \<subseteq> dom (cStrings (held pc))"
    "\<forall>pce. cache pc name = Some pce \<longrightarrow>
       tempFiles (held pc') (filename pce) = None \<and> cStrings (held pc') (printername pce) = None"
  proof -
    show c: "cache pc' = (cache pc)(name := None)"
    proof (cases "cache pc name")
      case None
      from lookup_new[OF None assms(2,1) run] None show ?thesis by auto
    next
      case (Some pce)
      from lookup_cached[OF Some assms(1) run] show ?thesis by simp
    qed
    from assms(1) show "cacheComplete (cache pc')"
      unfolding c by (simp add: cacheComplete_def)
    show "dom (tempFiles (held pc')) \<subseteq> dom (tempFiles (held pc))"
    proof (cases "cache pc name")
      case None
      from lookup_new[OF None assms(2,1) run] show ?thesis by simp
    next
      case (Some pce)
      from lookup_cached[OF Some assms(1) run] show ?thesis by simp
    qed
    show "dom (cStrings (held pc')) \<subseteq> dom (cStrings (held pc))"
    proof (cases "cache pc name")
      case None
      from lookup_new[OF None assms(2,1) run] show ?thesis by simp
    next
      case (Some pce)
      from lookup_cached[OF Some assms(1) run] show ?thesis by simp
    qed
    show "\<forall>pce. cache pc name = Some pce \<longrightarrow>
       tempFiles (held pc') (filename pce) = None \<and> cStrings (held pc') (printername pce) = None"
    proof (intro allI impI)
      fix pce assume some: "cache pc name = Some pce"
      from lookup_cached[OF some assms(1) run]
      show "tempFiles (held pc') (filename pce) = None \<and> cStrings (held pc') (printername pce) = None"
        by simp
    qed
  qed
next
  assume "refresh env entry r = (Some e', entry', r')"
  from refresh_failed[OF this] show "getFields entry' = getFields entry"
    by (simp add: getFields_def)
qed

text \<open>The equations that evaluate a lookup on the sample print systems.\<close>

lemmas cache_eval = getPPDCacheEntry_def createPPDCacheEntry_def refresh_def free_def
  getFields_def sampleEnvironment_def emptyCache_def cachedEntry_def cachedResources_def
  brokenEnvironment_def unchangedEnvironment_def zeroDescriptionEnvironment_def Let_def

text \<open>
  A first lookup with the sample print system succeeds with a complete triple; a
  lookup of a cached printer whose PPD has become unreadable fails, and the entry and
  its file are gone.
\<close>

theorem getPPDCacheEntry_outcome_witness:
  "cacheComplete (cache emptyCache) \<and> changedAtZero sampleEnvironment \<and>
   fst (getPPDCacheEntry sampleEnvironment ''office'' emptyCache) =
     Inr (1, ''Acme'', ''LaserOne'') \<and>
   cacheComplete (cache (snd (getPPDCacheEntry sampleEnvironment ''office'' emptyCache))) \<and>
   cacheComplete (cache \<lparr>cache = [''office'' \<mapsto> cachedEntry], held = cachedResources\<rparr>) \<and>
   changedAtZero brokenEnvironment \<and>
   fst (getPPDCacheEntry brokenEnvironment ''office''
          \<lparr>cache = [''office'' \<mapsto> cachedEntry], held = cachedResources\<rparr>) =
     Inl (Error ''Failed to parse PPD'') \<and>
   cache (snd (getPPDCacheEntry brokenEnvironment ''office''
          \<lparr>cache = [''office'' \<mapsto> cachedEntry], held = cachedResources\<rparr>)) ''office'' = None \<and>
   tempFiles (held (snd (getPPDCacheEntry brokenEnvironment ''office''
          \<lparr>cache = [''office'' \<mapsto> cachedEntry], held = cachedResources\<rparr>)))
     ''/tmp/cups-connector-ppd-1'' = None"
proof -
  let ?pc = "\<lparr>cache = [''office'' \<mapsto> cachedEntry], held = cachedResources\<rparr>"
  have i1: "cacheComplete (cache emptyCache)" by (simp add: cacheComplete_def emptyCache_def)
  have z1: "changedAtZero sampleEnvironment"
    by (simp add: changedAtZero_def sampleEnvironment_def)
  have f1: "fst (getPPDCacheEntry sampleEnvironment ''office'' emptyCache) =
     Inr (1, ''Acme'', ''LaserOne'')"
    by (simp add: cache_eval)
  then have r1: "getPPDCacheEntry sampleEnvironment ''office'' emptyCache =
     (Inr (1, ''Acme'', ''LaserOne''), snd (getPPDCacheEntry sampleEnvironment ''office'' emptyCache))"
    by (metis prod.collapse)
  have i2: "cacheComplete (cache ?pc)"
    by (simp add: cacheComplete_def complete_def cachedEntry_def)
  have z2: "changedAtZero brokenEnvironment"
    by (simp add: changedAtZero_def brokenEnvironment_def sampleEnvironment_def)
  have f2: "fst (getPPDCacheEntry brokenEnvironment ''office'' ?pc) =
     Inl (Error ''Failed to parse PPD'')"
    by (simp add: cache_eval)
  then have r2: "getPPDCacheEntry brokenEnvironment ''office'' ?pc =
     (Inl (Error ''Failed to parse PPD''), snd (getPPDCacheEntry brokenEnvironment ''office'' ?pc))"
    by (metis prod.collapse)
  from getPPDCacheEntry_outcome[OF i1 z1, where name = "''office''" and d = 1
      and mf = "''Acme''" and md = "''LaserOne''"
      and pc' = "snd (getPPDCacheEntry sampleEnvironment ''office'' emptyCache)"] r1
  have a: "cacheComplete (cache (snd (getPPDCacheEntry sampleEnvironment ''office'' emptyCache)))"
    by simp
  from getPPDCacheEntry_outcome[OF i2 z2, where name = "''office''"
      and e = "Error ''Failed to parse PPD''"
      and pc' = "snd (getPPDCacheEntry brokenEnvironment ''office'' ?pc)"] r2
  have b: "cache (snd (getPPDCacheEntry brokenEnvironment ''office'' ?pc)) ''office'' = None"
    "tempFiles (held (snd (getPPDCacheEntry brokenEnvironment ''office'' ?pc)))
       ''/tmp/cups-connector-ppd-1'' = None"
    by (simp_all add: cachedEntry_def)
  from i1 z1 f1 a i2 z2 f2 b show ?thesis by simp
qed

text \<open>
  Claim C8 as it is worded fails in three places. The stamp is written by \<open>getPPD\<close>
  through the pointer before the document is copied and translated, so a refresh
  that fails in the translation leaves the new stamp 9 in the entry, not the stamp 7
  it had. A print system that answers ``unchanged'' to a new entry makes the lookup
  succeed with the empty triple. And a translator that returns a pointer to the
  zero-valued description, with a manufacturer and a model, makes the lookup succeed
  with a description that is as empty as a new entry's: \<open>refresh\<close> can only ask
  whether the pointer is nil.
\<close>

theorem getPPDCacheEntry_outcome_counterexample:
  "fst (refresh brokenEnvironment cachedEntry cachedResources) =
     Some (Error ''Failed to parse PPD'') \<and>
   modtime cachedEntry = 7 \<and>
   modtime (fst (snd (refresh brokenEnvironment cachedEntry cachedResources))) = 9 \<and>
   fst (getPPDCacheEntry unchangedEnvironment ''office'' emptyCache) = Inr (0, [], []) \<and>
   fst (getPPDCacheEntry zeroDescriptionEnvironment ''office'' emptyCache) =
     Inr (0, ''Acme'', ''LaserOne'')"
  by (simp add: cache_eval)

end
